theory Spec2Isabelle
  imports Complex_Main
begin

section \<open>Values of a numpy float array\<close>

text \<open>
  The maps of \<^verbatim>\<open>xgal.deltag\<close> are numpy arrays of double-precision floats. A value is
  modelled as a finite real, one of the two infinities, or NaN. Arithmetic on finite
  values is exact (rounding and overflow are abstracted away); the special values
  follow IEEE 754 as numpy applies it: a division by zero does not raise, it yields an
  infinity or NaN. The sign of zero is not modelled: a zero divisor counts as \<open>+0\<close>.
\<close>

datatype float64 = Fin real | PInf | NInf | NaN

fun fneg :: "float64 \<Rightarrow> float64" where
  "fneg (Fin a) = Fin (- a)"
| "fneg PInf = NInf"
| "fneg NInf = PInf"
| "fneg NaN = NaN"

fun fadd :: "float64 \<Rightarrow> float64 \<Rightarrow> float64" where
  "fadd (Fin a) (Fin b) = Fin (a + b)"
| "fadd (Fin a) PInf = PInf"
| "fadd (Fin a) NInf = NInf"
| "fadd PInf (Fin b) = PInf"
| "fadd PInf PInf = PInf"
| "fadd PInf NInf = NaN"
| "fadd NInf (Fin b) = NInf"
| "fadd NInf NInf = NInf"
| "fadd NInf PInf = NaN"
| "fadd NaN y = NaN"
| "fadd x NaN = NaN"

definition fsub :: "float64 \<Rightarrow> float64 \<Rightarrow> float64" where
  "fsub x y = fadd x (fneg y)"

text \<open>The infinity with the sign of a nonzero real.\<close>

definition inf_of_sign :: "real \<Rightarrow> float64" where
  "inf_of_sign a = (if 0 < a then PInf else NInf)"

fun fmul :: "float64 \<Rightarrow> float64 \<Rightarrow> float64" where
  "fmul (Fin a) (Fin b) = Fin (a * b)"
| "fmul (Fin a) PInf = (if a = 0 then NaN else inf_of_sign a)"
| "fmul (Fin a) NInf = (if a = 0 then NaN else inf_of_sign (- a))"
| "fmul PInf (Fin b) = (if b = 0 then NaN else inf_of_sign b)"
| "fmul NInf (Fin b) = (if b = 0 then NaN else inf_of_sign (- b))"
| "fmul PInf PInf = PInf"
| "fmul PInf NInf = NInf"
| "fmul NInf PInf = NInf"
| "fmul NInf NInf = PInf"
| "fmul NaN y = NaN"
| "fmul x NaN = NaN"

fun fdiv :: "float64 \<Rightarrow> float64 \<Rightarrow> float64" where
  "fdiv (Fin a) (Fin b) =
     (if b = 0 then (if a = 0 then NaN else inf_of_sign a) else Fin (a / b))"
| "fdiv (Fin a) PInf = Fin 0"
| "fdiv (Fin a) NInf = Fin 0"
| "fdiv PInf (Fin b) = (if 0 \<le> b then PInf else NInf)"
| "fdiv NInf (Fin b) = (if 0 \<le> b then NInf else PInf)"
| "fdiv PInf PInf = NaN"
| "fdiv PInf NInf = NaN"
| "fdiv NInf PInf = NaN"
| "fdiv NInf NInf = NaN"
| "fdiv NaN y = NaN"
| "fdiv x NaN = NaN"

text \<open>Comparisons: every comparison with NaN is false.\<close>

fun flt :: "float64 \<Rightarrow> float64 \<Rightarrow> bool" where
  "flt (Fin a) (Fin b) = (a < b)"
| "flt (Fin a) PInf = True"
| "flt NInf (Fin b) = True"
| "flt NInf PInf = True"
| "flt x y = False"

definition fgt :: "float64 \<Rightarrow> float64 \<Rightarrow> bool" where
  "fgt x y = flt y x"

definition feq :: "float64 \<Rightarrow> float64 \<Rightarrow> bool" where
  "feq x y = (x \<noteq> NaN \<and> x = y)"

text \<open>\<^verbatim>\<open>np.maximum\<close> and \<^verbatim>\<open>np.minimum\<close> propagate NaN; \<^verbatim>\<open>np.clip\<close> is their composition.\<close>

definition fmaximum :: "float64 \<Rightarrow> float64 \<Rightarrow> float64" where
  "fmaximum x y = (if x = NaN \<or> y = NaN then NaN else if flt x y then y else x)"

definition fminimum :: "float64 \<Rightarrow> float64 \<Rightarrow> float64" where
  "fminimum x y = (if x = NaN \<or> y = NaN then NaN else if flt y x then y else x)"

definition np_clip :: "float64 \<Rightarrow> float64 \<Rightarrow> float64 \<Rightarrow> float64" where
  "np_clip x lo hi = fminimum (fmaximum x lo) hi"


section \<open>The numpy operations the module uses\<close>

datatype assertion =
    QuantityWeightShape
  | WeightNotPositive
  | QuantityWeightLength
  | RaDecLength
  | MaskLength
  | CountNotPositive

datatype error = AssertionError assertion | IndexError | ValueError | NameError string

text \<open>
  A mask reaches the module either as a boolean array or as a numeric one;
  \<^verbatim>\<open>astype(bool)\<close> maps every nonzero number (NaN included) to true.
\<close>

datatype mask_array = BoolArr "bool list" | FloatArr "float64 list"

fun len_mask :: "mask_array \<Rightarrow> nat" where
  "len_mask (BoolArr bs) = length bs"
| "len_mask (FloatArr xs) = length xs"

fun astype_bool :: "mask_array \<Rightarrow> bool list" where
  "astype_bool (BoolArr bs) = bs"
| "astype_bool (FloatArr xs) = map (\<lambda>x. x \<noteq> Fin 0) xs"

definition float_of_bool :: "bool \<Rightarrow> float64" where
  "float_of_bool b = (if b then Fin 1 else Fin 0)"

fun astype_float :: "mask_array \<Rightarrow> float64 list" where
  "astype_float (BoolArr bs) = map float_of_bool bs"
| "astype_float (FloatArr xs) = xs"

definition np_zeros :: "nat \<Rightarrow> float64 list" where
  "np_zeros n = replicate n (Fin 0)"

definition np_ones :: "nat \<Rightarrow> float64 list" where
  "np_ones n = replicate n (Fin 1)"

text \<open>
  \<^verbatim>\<open>np.sum\<close>: with exact finite arithmetic the order of summation does not matter
  (\<open>fadd\<close> is associative and commutative, as proved below), so the sum is taken
  element by element.
\<close>

fun np_sum :: "float64 list \<Rightarrow> float64" where
  "np_sum [] = Fin 0"
| "np_sum (x # xs) = fadd x (np_sum xs)"

text \<open>
  Boolean-mask indexing. \<open>bool_get a m\<close> is \<^verbatim>\<open>a[m]\<close>, the entries of \<open>a\<close> where
  \<open>m\<close> is true, in order; \<open>bool_set a m vs\<close> is \<^verbatim>\<open>a[m] = vs\<close> for an array \<open>vs\<close> with one
  entry per true position; \<open>bool_fill a m x\<close> is \<^verbatim>\<open>a[m] = x\<close> for a scalar. numpy raises
  IndexError when \<open>m\<close> and \<open>a\<close> differ in length: the callers below test the lengths
  before they use these functions.
\<close>

definition bool_get :: "'a list \<Rightarrow> bool list \<Rightarrow> 'a list" where
  "bool_get a m = map fst (filter snd (zip a m))"

fun bool_set :: "'a list \<Rightarrow> bool list \<Rightarrow> 'a list \<Rightarrow> 'a list" where
  "bool_set (a # as) (True # ms) (v # vs) = v # bool_set as ms vs"
| "bool_set (a # as) (False # ms) vs = a # bool_set as ms vs"
| "bool_set as ms vs = as"

definition bool_fill :: "'a list \<Rightarrow> bool list \<Rightarrow> 'a \<Rightarrow> 'a list" where
  "bool_fill a m x = map2 (\<lambda>v b. if b then x else v) a m"

definition logical_not :: "bool list \<Rightarrow> bool list" where
  "logical_not m = map Not m"

section \<open>count2density\<close>

text \<open>
  \<^verbatim>\<open>avg_in_pixel\<close> of \<^verbatim>\<open>count2density\<close>: zero everywhere, then at the masked pixels
  \<^verbatim>\<open>mask_frac[msk] * np.sum(count[msk]) / np.sum(mask_frac[msk])\<close>.
\<close>

definition avg_in_pixel :: "float64 list \<Rightarrow> float64 list \<Rightarrow> bool list \<Rightarrow> float64 list" where
  "avg_in_pixel count mask_frac msk =
     bool_set (np_zeros (length count)) msk
       (map (\<lambda>f. fdiv (fmul f (np_sum (bool_get count msk))) (np_sum (bool_get mask_frac msk)))
            (bool_get mask_frac msk))"

text \<open>
  \<^verbatim>\<open>density\<close>: zero everywhere, then at the masked pixels
  \<^verbatim>\<open>count[msk] / avg_in_pixel[msk] - 1.\<close>
\<close>

definition density :: "float64 list \<Rightarrow> float64 list \<Rightarrow> bool list \<Rightarrow> float64 list" where
  "density count mask_frac msk =
     bool_set (np_zeros (length count)) msk
       (map2 (\<lambda>c a. fsub (fdiv c a) (Fin 1)) (bool_get count msk)
          (bool_get (avg_in_pixel count mask_frac msk) msk))"

text \<open>The defaults of the two optional arguments, and \<^verbatim>\<open>msk = mask.astype(bool)\<close>.\<close>

definition mask_frac_of :: "nat \<Rightarrow> float64 list option \<Rightarrow> float64 list" where
  "mask_frac_of npix mask_frac_arg = (case mask_frac_arg of None \<Rightarrow> np_ones npix | Some f \<Rightarrow> f)"

definition msk_of :: "nat \<Rightarrow> mask_array option \<Rightarrow> bool list" where
  "msk_of npix mask_arg =
     (case mask_arg of None \<Rightarrow> replicate npix True | Some m \<Rightarrow> astype_bool m)"

text \<open>
  Indexing an array with a boolean array of another length raises IndexError; the
  first such expression is \<^verbatim>\<open>mask_frac[msk]\<close>, the second \<^verbatim>\<open>count[msk]\<close>.
\<close>

definition count2density ::
  "float64 list \<Rightarrow> float64 list option \<Rightarrow> mask_array option \<Rightarrow> error + float64 list" where
  "count2density count mask_frac_arg mask_arg =
     (let npix = length count;
          mask_frac = mask_frac_of npix mask_frac_arg;
          msk = msk_of npix mask_arg
      in if length mask_frac \<noteq> length msk \<or> npix \<noteq> length msk then Inl IndexError
         else Inr (density count mask_frac msk))"

section \<open>The external pixelization and broadcasting\<close>

text \<open>
  healpy is an external library: the functions of it that the module calls are
  parameters of the model. \<open>ang2pix hp nside theta phi\<close> is the pixel index of one
  direction, for any function from directions to indices: an index that is not below
  \<open>nside2npix hp nside\<close> lies outside the grid. That healpy itself rejects a colatitude
  outside \<open>[0, \<pi>]\<close> is not modelled. \<open>npix2nside\<close> gives \<open>None\<close> where healpy
  raises ValueError. The second argument of \<open>nside2pixarea\<close> is the keyword
  \<^verbatim>\<open>degrees\<close>.
\<close>

record healpy =
  nside2npix :: "nat \<Rightarrow> nat"
  ang2pix :: "nat \<Rightarrow> float64 \<Rightarrow> float64 \<Rightarrow> nat"
  nside2pixarea :: "nat \<Rightarrow> bool \<Rightarrow> float64"
  npix2nside :: "nat \<Rightarrow> nat option"

text \<open>\<^verbatim>\<open>hp.UNSEEN\<close> is the constant \<^verbatim>\<open>-1.6375e+30\<close>.\<close>

definition UNSEEN :: float64 where
  "UNSEEN = Fin (- (16375 * 10 ^ 26))"

text \<open>
  numpy applies a binary operation (and healpy its \<^verbatim>\<open>ang2pix\<close>) to two one-dimensional
  arrays element by element when the lengths agree, stretches an array of length one, and
  raises ValueError otherwise.
\<close>

definition broadcast2 :: "('a \<Rightarrow> 'b \<Rightarrow> 'c) \<Rightarrow> 'a list \<Rightarrow> 'b list \<Rightarrow> error + 'c list" where
  "broadcast2 f xs ys =
     (if length xs = length ys then Inr (map2 f xs ys)
      else if length xs = 1 then Inr (map (f (hd xs)) ys)
      else if length ys = 1 then Inr (map (\<lambda>x. f x (hd ys)) xs)
      else Inl ValueError)"

definition broadcast_to :: "nat \<Rightarrow> 'a list \<Rightarrow> error + 'a list" where
  "broadcast_to n vs =
     (if length vs = n then Inr vs
      else if length vs = 1 then Inr (replicate n (hd vs))
      else Inl ValueError)"

text \<open>
  \<^verbatim>\<open>np.add.at(a, idx, vals)\<close>: the unbuffered scatter-add, one index after the other,
  so that an index that occurs twice is added to twice. An index outside the array
  raises IndexError.
\<close>

fun add_at :: "float64 list \<Rightarrow> (nat \<times> float64) list \<Rightarrow> error + float64 list" where
  "add_at a [] = Inr a"
| "add_at a ((i, v) # ivs) =
     (if i < length a then add_at (a[i := fadd (a ! i) v]) ivs else Inl IndexError)"

definition np_add_at :: "float64 list \<Rightarrow> nat list \<Rightarrow> float64 list \<Rightarrow> error + float64 list" where
  "np_add_at a idx vals =
     (case broadcast_to (length idx) vals of
        Inl e \<Rightarrow> Inl e
      | Inr vs \<Rightarrow> add_at a (zip idx vs))"

section \<open>make_healpix_map\<close>

text \<open>
  \<^verbatim>\<open>quantity\<close> and \<^verbatim>\<open>weight\<close> are one-dimensional arrays or two-dimensional ones, a list of
  rows of one length (an array without rows is taken to have no columns).
\<close>

datatype ndarray = Arr1 "float64 list" | Arr2 "float64 list list"

definition ncols :: "float64 list list \<Rightarrow> nat" where
  "ncols rows = (case rows of [] \<Rightarrow> 0 | r # _ \<Rightarrow> length r)"

fun shape :: "ndarray \<Rightarrow> nat list" where
  "shape (Arr1 xs) = [length xs]"
| "shape (Arr2 rows) = [length rows, ncols rows]"

fun atleast_2d :: "ndarray \<Rightarrow> float64 list list" where
  "atleast_2d (Arr1 xs) = [xs]"
| "atleast_2d (Arr2 rows) = rows"

fun elements :: "ndarray \<Rightarrow> float64 list" where
  "elements (Arr1 xs) = xs"
| "elements (Arr2 rows) = concat rows"

definition ones_like :: "float64 list list \<Rightarrow> float64 list list" where
  "ones_like rows = map (map (\<lambda>_. Fin 1)) rows"

text \<open>
  The first block of the function: the checks made when a quantity is given. The shape of
  \<^verbatim>\<open>weight\<close> is compared with the shape of \<^verbatim>\<open>quantity\<close> after \<^verbatim>\<open>np.atleast_2d(quantity)\<close>
  and before \<^verbatim>\<open>np.atleast_2d(weight)\<close>, as in the source. The result is the pair of
  two-dimensional arrays, or \<open>None\<close> when \<^verbatim>\<open>quantity is None\<close>.
\<close>

definition check_weight :: "float64 list list \<Rightarrow> ndarray option \<Rightarrow> error + float64 list list" where
  "check_weight quantity weight =
     (case weight of
        Some w \<Rightarrow>
          if shape (Arr2 quantity) \<noteq> shape w then Inl (AssertionError QuantityWeightShape)
          else if \<not> list_all (\<lambda>x. fgt x (Fin 0)) (elements w) then Inl (AssertionError WeightNotPositive)
          else Inr (atleast_2d w)
      | None \<Rightarrow> Inr (ones_like quantity))"

definition check_quantity ::
  "float64 list \<Rightarrow> float64 list \<Rightarrow> ndarray option \<Rightarrow> ndarray option \<Rightarrow>
   error + (float64 list list \<times> float64 list list) option" where
  "check_quantity ra dec quantity weight =
     (case quantity of
        None \<Rightarrow> Inr None
      | Some q \<Rightarrow>
          let quantity2 = atleast_2d q in
          (case check_weight quantity2 weight of
             Inl e \<Rightarrow> Inl e
           | Inr weight2 \<Rightarrow>
               if ncols quantity2 \<noteq> ncols weight2 then Inl (AssertionError QuantityWeightLength)
               else if length ra \<noteq> length dec then Inl (AssertionError RaDecLength)
               else Inr (Some (quantity2, weight2))))"

text \<open>
  \<^verbatim>\<open>hp.ang2pix(nside, (90.0-dec)/180.0*np.pi, ra/180.0*np.pi)\<close>, where \<^verbatim>\<open>np.pi\<close> is the
  double nearest to \<open>\<pi>\<close>, \<^verbatim>\<open>3.141592653589793\<close>.
\<close>

definition np_pi :: float64 where
  "np_pi = Fin (884279719003555 / 2 ^ 48)"

definition colatitude :: "float64 \<Rightarrow> float64" where
  "colatitude d = fmul (fdiv (fsub (Fin 90) d) (Fin 180)) np_pi"

definition longitude :: "float64 \<Rightarrow> float64" where
  "longitude r = fmul (fdiv r (Fin 180)) np_pi"

definition get_ipix :: "healpy \<Rightarrow> nat \<Rightarrow> float64 list \<Rightarrow> float64 list \<Rightarrow> error + nat list" where
  "get_ipix hp nside ra dec =
     broadcast2 (ang2pix hp nside) (map colatitude dec) (map longitude ra)"

text \<open>The pixel of the \<open>k\<close>-th object of a catalog whose \<^verbatim>\<open>ra\<close> and \<^verbatim>\<open>dec\<close> have one length.\<close>

definition object_pixel :: "healpy \<Rightarrow> nat \<Rightarrow> float64 list \<Rightarrow> float64 list \<Rightarrow> nat \<Rightarrow> nat" where
  "object_pixel hp nside ra dec k = ang2pix hp nside (colatitude (dec ! k)) (longitude (ra ! k))"

text \<open>One pass of the loop over the rows of \<^verbatim>\<open>quantity\<close>: the map of one quantity.\<close>

definition quantity_map ::
  "nat \<Rightarrow> nat list \<Rightarrow> bool list \<Rightarrow> float64 \<Rightarrow> float64 list \<Rightarrow> float64 list \<Rightarrow>
   error + float64 list" where
  "quantity_map npix ipix bool_mask x qrow wrow =
     (case np_add_at (np_zeros npix) ipix wrow of
        Inl e \<Rightarrow> Inl e
      | Inr sum_w \<Rightarrow>
          (case np_add_at (np_zeros npix) ipix (map2 fmul qrow wrow) of
             Inl e \<Rightarrow> Inl e
           | Inr outmap \<Rightarrow>
               let outmap1 = bool_set outmap bool_mask
                     (map2 fdiv (bool_get outmap bool_mask) (bool_get sum_w bool_mask))
               in Inr (bool_fill outmap1 (logical_not bool_mask) x)))"

text \<open>The loop \<^verbatim>\<open>for i in range(quantity.shape[0])\<close>: it stops at the first error.\<close>

fun for_rows :: "(nat \<Rightarrow> error + 'a) \<Rightarrow> nat list \<Rightarrow> error + 'a list" where
  "for_rows f [] = Inr []"
| "for_rows f (i # is) =
     (case f i of
        Inl e \<Rightarrow> Inl e
      | Inr m \<Rightarrow> (case for_rows f is of Inl e \<Rightarrow> Inl e | Inr ms \<Rightarrow> Inr (m # ms)))"

record extra =
  count_tot_in_mask :: float64
  count_per_pixel_in_mask :: float64
  count_per_steradian_in_mask :: float64
  count_per_sqdegree_in_mask :: float64
  count_per_sqarcmin_in_mask :: float64
  ipix_masked :: "(nat \<times> bool) list"

definition make_extra :: "healpy \<Rightarrow> nat \<Rightarrow> float64 list \<Rightarrow> bool list \<Rightarrow> nat list \<Rightarrow> extra" where
  "make_extra hp nside count bool_mask ipix =
     (let tot = np_sum (bool_get count bool_mask);
          per_pixel = fdiv (fmul tot (Fin 1)) (Fin (real (length (filter id bool_mask))));
          per_sqdegree = fdiv per_pixel (nside2pixarea hp nside True)
      in \<lparr> count_tot_in_mask = tot,
           count_per_pixel_in_mask = per_pixel,
           count_per_steradian_in_mask = fdiv per_pixel (nside2pixarea hp nside False),
           count_per_sqdegree_in_mask = per_sqdegree,
           count_per_sqarcmin_in_mask = fdiv per_sqdegree (Fin (60 ^ 2)),
           ipix_masked = map (\<lambda>i. (i, bool_mask ! i)) ipix \<rparr>)"

text \<open>
  The result is the tuple \<^verbatim>\<open>(outmaps, count, returned_mask)\<close>, with the dictionary
  \<^verbatim>\<open>extra\<close> when \<^verbatim>\<open>return_extra\<close> is set.
\<close>

type_synonym healpix_maps = "float64 list list \<times> float64 list \<times> mask_array \<times> extra option"

definition make_healpix_map ::
  "healpy \<Rightarrow> float64 list \<Rightarrow> float64 list \<Rightarrow> ndarray option \<Rightarrow> nat \<Rightarrow> mask_array option \<Rightarrow>
   ndarray option \<Rightarrow> bool \<Rightarrow> bool \<Rightarrow> error + healpix_maps" where
  "make_healpix_map hp ra dec quantity nside mask_arg weight fill_UNSEEN return_extra =
     (case check_quantity ra dec quantity weight of
        Inl e \<Rightarrow> Inl e
      | Inr qw \<Rightarrow>
          let npix = nside2npix hp nside in
          if (case mask_arg of None \<Rightarrow> False | Some m \<Rightarrow> len_mask m \<noteq> npix)
          then Inl (AssertionError MaskLength)
          else
            let x = (if fill_UNSEEN then UNSEEN else Fin 0) in
            (case get_ipix hp nside ra dec of
               Inl e \<Rightarrow> Inl e
             | Inr ipix \<Rightarrow>
                 (case np_add_at (np_zeros npix) ipix [Fin 1] of
                    Inl e \<Rightarrow> Inl e
                  | Inr count0 \<Rightarrow>
                      let bool_mask = (case mask_arg of
                                         None \<Rightarrow> map (\<lambda>c. fgt c (Fin 0)) count0
                                       | Some m \<Rightarrow> astype_bool m);
                          count = bool_fill count0 (logical_not bool_mask) x
                      in
                      if mask_arg = None \<and>
                         \<not> list_all (\<lambda>c. fgt c (Fin 0)) (bool_get count bool_mask)
                      then Inl (AssertionError CountNotPositive)
                      else
                        (case (case qw of
                                 None \<Rightarrow> Inr []
                               | Some (quantity2, weight2) \<Rightarrow>
                                   for_rows (\<lambda>i. quantity_map npix ipix bool_mask x
                                                   (quantity2 ! i) (weight2 ! i))
                                     [0 ..< length quantity2]) of
                           Inl e \<Rightarrow> Inl e
                         | Inr outmaps \<Rightarrow>
                             let returned_mask = (case mask_arg of
                                                    None \<Rightarrow> FloatArr (map float_of_bool bool_mask)
                                                  | Some m \<Rightarrow> m)
                             in Inr (outmaps, count, returned_mask,
                                     if return_extra
                                     then Some (make_extra hp nside count bool_mask ipix)
                                     else None)))))"

section \<open>density2count\<close>

text \<open>
  \<^verbatim>\<open>nbarpix\<close>: \<^verbatim>\<open>nbar\<close> itself when \<^verbatim>\<open>pixel\<close> is set, and otherwise
  \<^verbatim>\<open>nbar * hp.nside2pixarea(hp.npix2nside(len(densitymap)))\<close>.
\<close>

definition nbarpix :: "healpy \<Rightarrow> float64 \<Rightarrow> nat \<Rightarrow> bool \<Rightarrow> error + float64" where
  "nbarpix hp nbar n pixel =
     (if pixel then Inr nbar
      else (case npix2nside hp n of
              None \<Rightarrow> Inl ValueError
            | Some nside \<Rightarrow> Inr (fmul nbar (nside2pixarea hp nside False))))"

definition onepdelta :: "float64 list \<Rightarrow> bool list \<Rightarrow> float64 list" where
  "onepdelta densitymap msk =
     bool_fill (map (\<lambda>d. np_clip (fadd (Fin 1) d) (Fin 0) PInf) densitymap)
       (logical_not msk) (Fin 0)"

text \<open>
  Everything of \<^verbatim>\<open>density2count\<close> before the random draw: whether the warning about
  densities below \<open>-1\<close> is printed, and the array \<^verbatim>\<open>lamb\<close> of Poisson rates.
  \<^verbatim>\<open>densitymap[mask]\<close> indexes with the mask as it is given: numpy accepts a boolean
  array of the length of the map and raises IndexError for a float array.
\<close>

definition mask_default :: "nat \<Rightarrow> mask_array option \<Rightarrow> mask_array" where
  "mask_default n mask_arg =
     (case mask_arg of None \<Rightarrow> BoolArr (replicate n True) | Some m \<Rightarrow> m)"

definition completeness_default :: "mask_array \<Rightarrow> float64 list option \<Rightarrow> float64 list" where
  "completeness_default mask_a completeness_arg =
     (case completeness_arg of None \<Rightarrow> astype_float mask_a | Some c \<Rightarrow> c)"

definition density2count_lamb ::
  "healpy \<Rightarrow> float64 list \<Rightarrow> float64 \<Rightarrow> mask_array option \<Rightarrow> float64 list option \<Rightarrow> bool \<Rightarrow>
   error + bool \<times> float64 list" where
  "density2count_lamb hp densitymap nbar mask_arg completeness_arg pixel =
     (let mask_a = mask_default (length densitymap) mask_arg;
          completeness = completeness_default mask_a completeness_arg
      in case mask_a of
           FloatArr _ \<Rightarrow> Inl IndexError
         | BoolArr msk \<Rightarrow>
             if length msk \<noteq> length densitymap then Inl IndexError
             else
               let warned = list_ex (\<lambda>d. flt d (Fin (- 1))) (bool_get densitymap msk) in
               (case nbarpix hp nbar (length densitymap) pixel of
                  Inl e \<Rightarrow> Inl e
                | Inr nb \<Rightarrow>
                    (case broadcast2 fmul (map (fmul nb) (onepdelta densitymap msk)) completeness of
                       Inl e \<Rightarrow> Inl e
                     | Inr lamb \<Rightarrow> Inr (warned, lamb))))"

text \<open>
  The random source is external: \<open>poisson\<close> stands for \<^verbatim>\<open>np.random.poisson\<close>, which
  draws one count for each rate or raises.
\<close>

definition density2count ::
  "(float64 list \<Rightarrow> error + nat list) \<Rightarrow> healpy \<Rightarrow> float64 list \<Rightarrow> float64 \<Rightarrow>
   mask_array option \<Rightarrow> float64 list option \<Rightarrow> bool \<Rightarrow> error + nat list" where
  "density2count poisson hp densitymap nbar mask_arg completeness_arg pixel =
     (case density2count_lamb hp densitymap nbar mask_arg completeness_arg pixel of
        Inl e \<Rightarrow> Inl e
      | Inr (warned, lamb) \<Rightarrow> poisson lamb)"

section \<open>overdensity\<close>

text \<open>
  The body of \<^verbatim>\<open>overdensity\<close> passes a name \<^verbatim>\<open>quantity\<close> to \<^verbatim>\<open>make_healpix_map\<close>. The
  name is neither a parameter nor a local variable of the function, so Python looks it
  up among the globals of the module when the call is evaluated: \<open>quantity_global\<close> is
  the result of that lookup, \<open>None\<close> when no such global exists (NameError) and
  \<open>Some q\<close> when it is bound to the value \<open>q\<close>. The module \<^verbatim>\<open>xgal.deltag\<close> binds only
  \<^verbatim>\<open>np\<close>, \<^verbatim>\<open>hp\<close> and its five functions, which is \<open>deltag_quantity\<close>.
\<close>

definition overdensity ::
  "healpy \<Rightarrow> ndarray option option \<Rightarrow> float64 list \<Rightarrow> float64 list \<Rightarrow> float64 list \<Rightarrow> nat \<Rightarrow>
   error + float64 list" where
  "overdensity hp quantity_global ras decs mask_frac nside =
     (let binary_mask = BoolArr (map (\<lambda>f. feq f (Fin 0)) mask_frac) in
      case quantity_global of
        None \<Rightarrow> Inl (NameError ''quantity'')
      | Some quantity \<Rightarrow>
          (case make_healpix_map hp ras decs quantity nside (Some binary_mask) None False False of
             Inl e \<Rightarrow> Inl e
           | Inr (outmaps, count, returned_mask, ex) \<Rightarrow>
               count2density count (Some mask_frac) (Some binary_mask)))"

definition deltag_quantity :: "ndarray option option" where
  "deltag_quantity = None"

section \<open>The error names of the specification\<close>

text \<open>
  The module signals its own errors with \<^verbatim>\<open>assert\<close>. The specification names them
  ShapeMismatch (the four assertions on shapes and lengths), InvalidWeight (the
  assertion that the weights are strictly positive) and MaskCoverageError (the
  assertion on the counts under a derived mask); EmptyMaskError is named for a zero
  normalisation in \<^verbatim>\<open>count2density\<close>. Errors raised inside numpy or by the Python
  interpreter have no name in the specification.
\<close>

datatype spec_error = ShapeMismatch | InvalidWeight | MaskCoverageError | EmptyMaskError

fun spec_error_of :: "error \<Rightarrow> spec_error option" where
  "spec_error_of (AssertionError QuantityWeightShape) = Some ShapeMismatch"
| "spec_error_of (AssertionError QuantityWeightLength) = Some ShapeMismatch"
| "spec_error_of (AssertionError RaDecLength) = Some ShapeMismatch"
| "spec_error_of (AssertionError MaskLength) = Some ShapeMismatch"
| "spec_error_of (AssertionError WeightNotPositive) = Some InvalidWeight"
| "spec_error_of (AssertionError CountNotPositive) = Some MaskCoverageError"
| "spec_error_of IndexError = None"
| "spec_error_of ValueError = None"
| "spec_error_of (NameError n) = None"

definition fails_with :: "error + 'a \<Rightarrow> spec_error \<Rightarrow> bool" where
  "fails_with r k = (case r of Inl e \<Rightarrow> spec_error_of e = Some k | Inr _ \<Rightarrow> False)"

section \<open>A small pixelization for concrete inputs\<close>

text \<open>
  Concrete inputs need a concrete pixelization. \<open>lon_healpy\<close> cuts the sphere into two
  pixels by longitude: pixel 0 holds the directions with a longitude below \<^verbatim>\<open>np.pi\<close>
  (right ascension below 180 degrees), pixel 1 the others.
\<close>

definition lon_healpy :: healpy where
  "lon_healpy = \<lparr> nside2npix = (\<lambda>nside. 2),
                   ang2pix = (\<lambda>nside theta phi. if flt phi np_pi then 0 else 1),
                   nside2pixarea = (\<lambda>nside degrees. if degrees then Fin 20626 else Fin (6283 / 1000)),
                   npix2nside = (\<lambda>npix. if npix = 2 then Some 1 else None) \<rparr>"

text \<open>
  \<open>equator_healpy\<close> has the twelve pixels of healpy at \<^verbatim>\<open>nside = 1\<close>, and for a
  direction on the equator (declination 0) its index is the one of healpy's RING scheme
  there: the pixels 4 to 7 are centred on the equator at the longitudes 0, 90, 180 and
  270 degrees, and a direction of longitude \<open>\<phi>\<close> lies in pixel
  \<open>4 + \<lfloor>\<phi> / (\<pi> / 2) + 1 / 2\<rfloor> mod 4\<close>.
\<close>

definition equator_healpy :: healpy where
  "equator_healpy =
     \<lparr> nside2npix = (\<lambda>nside. 12 * nside * nside),
       ang2pix = (\<lambda>nside theta phi.
                    case fdiv phi (fdiv np_pi (Fin 2)) of
                      Fin t \<Rightarrow> 4 + nat (\<lfloor>t + 1 / 2\<rfloor> mod 4)
                    | _ \<Rightarrow> 0),
       nside2pixarea = (\<lambda>nside degrees. if degrees then Fin 3438 else Fin (1047 / 1000)),
       npix2nside = (\<lambda>npix. if npix = 12 then Some 1 else None) \<rparr>"

text \<open>The number of objects of a catalog that fall in pixel \<open>p\<close>.\<close>

definition objects_in :: "healpy \<Rightarrow> nat \<Rightarrow> float64 list \<Rightarrow> float64 list \<Rightarrow> nat \<Rightarrow> nat" where
  "objects_in hp nside ra dec p =
     count_list (map (object_pixel hp nside ra dec) [0..<length ra]) p"

section \<open>Double-precision rounding\<close>

text \<open>
  The definitions above compute with exact reals. To compare with what the code computes
  in doubles, every arithmetic operation can be followed by a rounding \<open>rnd\<close>. With the
  identity for \<open>rnd\<close> this is the exact arithmetic above; \<open>round64\<close> is the rounding of
  IEEE 754 binary64: to the nearest number with 53 significant bits, ties to the even
  one. The range of the exponent is not bounded: overflow to an infinity and subnormal
  numbers are not modelled.
\<close>

definition round_half_even :: "real \<Rightarrow> int" where
  "round_half_even y =
     (let f = \<lfloor>y\<rfloor>; d = y - of_int f
      in if d < 1 / 2 then f else if 1 / 2 < d then f + 1 else if even f then f else f + 1)"

definition round64 :: "real \<Rightarrow> real" where
  "round64 x =
     (if x = 0 then 0
      else let u = 2 powi (\<lfloor>log 2 \<bar>x\<bar>\<rfloor> - 52)
           in of_int (round_half_even (x / u)) * u)"

definition rounded :: "(real \<Rightarrow> real) \<Rightarrow> float64 \<Rightarrow> float64" where
  "rounded rnd z = (case z of Fin s \<Rightarrow> Fin (rnd s) | _ \<Rightarrow> z)"

definition fadd_r :: "(real \<Rightarrow> real) \<Rightarrow> float64 \<Rightarrow> float64 \<Rightarrow> float64" where
  "fadd_r rnd x y = rounded rnd (fadd x y)"

definition fsub_r :: "(real \<Rightarrow> real) \<Rightarrow> float64 \<Rightarrow> float64 \<Rightarrow> float64" where
  "fsub_r rnd x y = rounded rnd (fsub x y)"

definition fmul_r :: "(real \<Rightarrow> real) \<Rightarrow> float64 \<Rightarrow> float64 \<Rightarrow> float64" where
  "fmul_r rnd x y = rounded rnd (fmul x y)"

definition fdiv_r :: "(real \<Rightarrow> real) \<Rightarrow> float64 \<Rightarrow> float64 \<Rightarrow> float64" where
  "fdiv_r rnd x y = rounded rnd (fdiv x y)"

text \<open>
  \<^verbatim>\<open>np.sum\<close> with rounding, from left to right, which is the order of numpy for an array of
  fewer than eight entries (longer arrays are added in blocks).
\<close>

definition np_sum_r :: "(real \<Rightarrow> real) \<Rightarrow> float64 list \<Rightarrow> float64" where
  "np_sum_r rnd xs = foldl (fadd_r rnd) (Fin 0) xs"

text \<open>\<^verbatim>\<open>count2density\<close> again, with every operation of lines 157 and 161 rounded.\<close>

definition avg_in_pixel_r ::
  "(real \<Rightarrow> real) \<Rightarrow> float64 list \<Rightarrow> float64 list \<Rightarrow> bool list \<Rightarrow> float64 list" where
  "avg_in_pixel_r rnd count mask_frac msk =
     bool_set (np_zeros (length count)) msk
       (map (\<lambda>f. fdiv_r rnd (fmul_r rnd f (np_sum_r rnd (bool_get count msk)))
                    (np_sum_r rnd (bool_get mask_frac msk)))
            (bool_get mask_frac msk))"

definition density_r ::
  "(real \<Rightarrow> real) \<Rightarrow> float64 list \<Rightarrow> float64 list \<Rightarrow> bool list \<Rightarrow> float64 list" where
  "density_r rnd count mask_frac msk =
     bool_set (np_zeros (length count)) msk
       (map2 (\<lambda>c a. fsub_r rnd (fdiv_r rnd c a) (Fin 1)) (bool_get count msk)
          (bool_get (avg_in_pixel_r rnd count mask_frac msk) msk))"

definition count2density_r ::
  "(real \<Rightarrow> real) \<Rightarrow> float64 list \<Rightarrow> float64 list option \<Rightarrow> mask_array option \<Rightarrow>
   error + float64 list" where
  "count2density_r rnd count mask_frac_arg mask_arg =
     (let npix = length count;
          mask_frac = mask_frac_of npix mask_frac_arg;
          msk = msk_of npix mask_arg
      in if length mask_frac \<noteq> length msk \<or> npix \<noteq> length msk then Inl IndexError
         else Inr (density_r rnd count mask_frac msk))"

section \<open>The order of summation\<close>

lemma fadd_commute: "fadd x y = fadd y x"
  by (cases x; cases y) simp_all

lemma fadd_assoc: "fadd (fadd x y) z = fadd x (fadd y z)"
  by (cases x; cases y; cases z) simp_all

lemma foldl_fadd: "foldl fadd a xs = fadd a (np_sum xs)"
proof (induction xs arbitrary: a)
  case Nil
  show ?case by (cases a) simp_all
next
  case (Cons x xs)
  then show ?case by (simp add: fadd_assoc)
qed

lemma np_sum_foldl: "np_sum xs = foldl fadd (Fin 0) xs"
proof -
  have "fadd (Fin 0) y = y" for y by (cases y) simp_all
  then show ?thesis by (simp add: foldl_fadd)
qed

lemma np_sum_append: "np_sum (xs @ ys) = fadd (np_sum xs) (np_sum ys)"
proof (induction xs)
  case Nil
  show ?case by (cases "np_sum ys") simp_all
next
  case (Cons x xs)
  then show ?case by (simp add: fadd_assoc)
qed

lemma np_sum_rev: "np_sum (rev xs) = np_sum xs"
proof (induction xs)
  case Nil
  show ?case by simp
next
  case (Cons x xs)
  have "fadd y (Fin 0) = y" for y by (cases y) simp_all
  with Cons show ?case by (simp add: np_sum_append fadd_commute)
qed

section \<open>Boolean indexing and the density map\<close>

lemma bool_get_Nil [simp]: "bool_get [] m = []" "bool_get a [] = []"
  by (simp_all add: bool_get_def)

lemma bool_get_Cons [simp]:
  "bool_get (v # a) (k # m) = (if k then v # bool_get a m else bool_get a m)"
  by (simp add: bool_get_def)

lemma bool_set_map_get:
  "length a = length m \<Longrightarrow> length m = length b \<Longrightarrow>
   bool_set a m (map f (bool_get b m)) =
     map (\<lambda>(v, k, w). if k then f w else v) (zip a (zip m b))"
proof (induction a m b rule: list_induct3)
  case Nil
  show ?case by simp
next
  case (Cons v a k m w b)
  then show ?case by (cases k) simp_all
qed

lemma bool_get_set:
  "length a = length m \<Longrightarrow> length m = length b \<Longrightarrow>
   bool_get (bool_set a m (map f (bool_get b m))) m = map f (bool_get b m)"
proof (induction a m b rule: list_induct3)
  case Nil
  show ?case by simp
next
  case (Cons v a k m w b)
  then show ?case by (cases k) simp_all
qed

lemma bool_get_zip:
  "length a = length m \<Longrightarrow> length m = length b \<Longrightarrow>
   zip (bool_get a m) (bool_get b m) = bool_get (zip a b) m"
  by (induction a m b rule: list_induct3) simp_all

lemma length_bool_set [simp]: "length (bool_set a m vs) = length a"
  by (induction a m vs rule: bool_set.induct) simp_all

lemma avg_in_pixel_nth:
  assumes "length count = length msk" "length msk = length mf" "p < length count"
  shows "avg_in_pixel count mf msk ! p =
     (if msk ! p
      then fdiv (fmul (mf ! p) (np_sum (bool_get count msk))) (np_sum (bool_get mf msk))
      else Fin 0)"
proof -
  have lz: "length (np_zeros (length count)) = length msk"
    using assms by (simp add: np_zeros_def)
  show ?thesis
    unfolding avg_in_pixel_def bool_set_map_get [OF lz assms(2)]
    using assms by (simp add: np_zeros_def)
qed

lemma length_avg_in_pixel [simp]: "length (avg_in_pixel count mf msk) = length count"
  by (simp add: avg_in_pixel_def np_zeros_def)

lemma length_density [simp]: "length (density count mf msk) = length count"
  by (simp add: density_def np_zeros_def)

lemma density_nth:
  assumes "length count = length msk" "length msk = length mf" "p < length count"
  shows "density count mf msk ! p =
     (if msk ! p then fsub (fdiv (count ! p) (avg_in_pixel count mf msk ! p)) (Fin 1) else Fin 0)"
proof -
  let ?avg = "avg_in_pixel count mf msk"
  have lz: "length (np_zeros (length count)) = length msk"
    using assms by (simp add: np_zeros_def)
  have la: "length msk = length ?avg" using assms by simp
  have "map2 (\<lambda>c a. fsub (fdiv c a) (Fin 1)) (bool_get count msk) (bool_get ?avg msk)
        = map (\<lambda>(c, a). fsub (fdiv c a) (Fin 1)) (bool_get (zip count ?avg) msk)"
    using assms la by (simp add: bool_get_zip)
  then have "density count mf msk =
      map (\<lambda>(v, k, w). if k then (\<lambda>(c, a). fsub (fdiv c a) (Fin 1)) w else v)
        (zip (np_zeros (length count)) (zip msk (zip count ?avg)))"
    unfolding density_def using bool_set_map_get [OF lz, of "zip count ?avg"] assms by simp
  then show ?thesis using assms by (simp add: np_zeros_def)
qed

lemma count2density_Inr:
  "length (mask_frac_of (length count) fa) = length count \<Longrightarrow>
   length (msk_of (length count) ma) = length count \<Longrightarrow>
   count2density count fa ma =
     Inr (density count (mask_frac_of (length count) fa) (msk_of (length count) ma))"
  by (simp add: count2density_def Let_def)

text \<open>
  Claim C1. For \<^verbatim>\<open>count = [10, 0, 5, 0]\<close>, the mask \<^verbatim>\<open>[true, false, true, false]\<close> and
  completeness \<^verbatim>\<open>[1, 1, 1, 1]\<close>, \<^verbatim>\<open>count2density\<close> returns
  \<^verbatim>\<open>[10/7.5 - 1, 0, 5/7.5 - 1, 0]\<close> and the local expectation is \<^verbatim>\<open>[7.5, 0, 7.5, 0]\<close>.
  In general, for maps of one length, the local expectation at a masked pixel is the
  completeness there times the sum of the counts over the masked pixels divided by the
  sum of the completeness over the masked pixels, the density at a masked pixel is the
  count divided by the local expectation, minus one, and the density at an unmasked
  pixel is zero.
\<close>

theorem count2density_scenario:
  "count2density [Fin 10, Fin 0, Fin 5, Fin 0] (Some [Fin 1, Fin 1, Fin 1, Fin 1])
       (Some (BoolArr [True, False, True, False]))
     = Inr [Fin (10 / 7.5 - 1), Fin 0, Fin (5 / 7.5 - 1), Fin 0]
   \<and> avg_in_pixel [Fin 10, Fin 0, Fin 5, Fin 0] [Fin 1, Fin 1, Fin 1, Fin 1]
        [True, False, True, False] = [Fin 7.5, Fin 0, Fin 7.5, Fin 0]
   \<and> (\<forall>count mf m p. length mf = length count \<longrightarrow> length m = length count \<longrightarrow> p < length count \<longrightarrow>
        (\<exists>d. count2density count (Some mf) (Some (BoolArr m)) = Inr d \<and> length d = length count
           \<and> avg_in_pixel count mf m ! p =
               (if m ! p
                then fdiv (fmul (mf ! p) (np_sum (bool_get count m))) (np_sum (bool_get mf m))
                else Fin 0)
           \<and> d ! p =
               (if m ! p then fsub (fdiv (count ! p) (avg_in_pixel count mf m ! p)) (Fin 1)
                else Fin 0)))"
proof (intro conjI allI impI)
  show "count2density [Fin 10, Fin 0, Fin 5, Fin 0] (Some [Fin 1, Fin 1, Fin 1, Fin 1])
       (Some (BoolArr [True, False, True, False]))
     = Inr [Fin (10 / 7.5 - 1), Fin 0, Fin (5 / 7.5 - 1), Fin 0]"
    by (simp add: count2density_def mask_frac_of_def msk_of_def density_def avg_in_pixel_def
        np_zeros_def fsub_def)
  show "avg_in_pixel [Fin 10, Fin 0, Fin 5, Fin 0] [Fin 1, Fin 1, Fin 1, Fin 1]
        [True, False, True, False] = [Fin 7.5, Fin 0, Fin 7.5, Fin 0]"
    by (simp add: avg_in_pixel_def np_zeros_def)
next
  fix count mf :: "float64 list" and m :: "bool list" and p :: nat
  assume a: "length mf = length count" "length m = length count" "p < length count"
  have c: "count2density count (Some mf) (Some (BoolArr m)) = Inr (density count mf m)"
    using a by (simp add: count2density_def mask_frac_of_def msk_of_def)
  show "\<exists>d. count2density count (Some mf) (Some (BoolArr m)) = Inr d \<and> length d = length count
           \<and> avg_in_pixel count mf m ! p =
               (if m ! p
                then fdiv (fmul (mf ! p) (np_sum (bool_get count m))) (np_sum (bool_get mf m))
                else Fin 0)
           \<and> d ! p =
               (if m ! p then fsub (fdiv (count ! p) (avg_in_pixel count mf m ! p)) (Fin 1)
                else Fin 0)"
    unfolding c using a avg_in_pixel_nth [of count m mf p] density_nth [of count m mf p]
    by simp
qed

theorem count2density_scenario_witness:
  "\<exists>d. count2density [Fin 10, Fin 0, Fin 5, Fin 0] (Some [Fin 1, Fin 1, Fin 1, Fin 1])
         (Some (BoolArr [True, False, True, False])) = Inr d
       \<and> length d = 4 \<and> d ! 2 = Fin (- (1 / 3))"
  using count2density_scenario [THEN conjunct2, THEN conjunct2, rule_format,
      of "[Fin 1, Fin 1, Fin 1, Fin 1]" "[Fin 10, Fin 0, Fin 5, Fin 0]"
         "[True, False, True, False]" 2]
  by (auto simp: fsub_def)

section \<open>Scaling the counts\<close>

text \<open>Multiplication by a positive finite number commutes with the operations of the density.\<close>

lemma fmul_pos_fadd:
  "0 < c \<Longrightarrow> fmul (Fin c) (fadd x y) = fadd (fmul (Fin c) x) (fmul (Fin c) y)"
  by (cases x; cases y) (simp_all add: inf_of_sign_def distrib_left)

lemma fmul_pos_fmul:
  "0 < c \<Longrightarrow> fmul f (fmul (Fin c) s) = fmul (Fin c) (fmul f s)"
  by (cases f; cases s) (auto simp: inf_of_sign_def zero_less_mult_iff mult_less_0_iff not_less
      dest: order_antisym)

lemma fdiv_pos_num:
  "0 < c \<Longrightarrow> fdiv (fmul (Fin c) v) m = fmul (Fin c) (fdiv v m)"
  by (cases v; cases m) (auto simp: inf_of_sign_def zero_less_mult_iff)

lemma fdiv_pos_cancel:
  "0 < c \<Longrightarrow> fdiv (fmul (Fin c) x) (fmul (Fin c) w) = fdiv x w"
  by (cases x; cases w) (auto simp: inf_of_sign_def zero_less_mult_iff zero_le_mult_iff not_less)

subsection \<open>Rounding to 53 bits\<close>

lemma floor_log2_eqI:
  assumes "0 < x" "2 powi e \<le> x" "x < 2 powi (e + 1)"
  shows "\<lfloor>log 2 x\<rfloor> = e"
proof -
  have p: "(2::real) powr (of_int k) = 2 powi k" for k
    by (simp add: powr_real_of_int')
  have "of_int e \<le> log 2 x"
    using assms(1,2) by (simp add: le_log_iff p)
  moreover have "log 2 x < of_int (e + 1)"
    using assms(1,3) by (subst log_less_iff) (simp_all add: p del: of_int_add)
  ultimately show ?thesis by (simp add: floor_eq_iff)
qed

lemma round64_eqI:
  assumes "x \<noteq> 0" "2 powi e \<le> \<bar>x\<bar>" "\<bar>x\<bar> < 2 powi (e + 1)"
  shows "round64 x = of_int (round_half_even (x / 2 powi (e - 52))) * 2 powi (e - 52)"
proof -
  have "\<lfloor>log 2 \<bar>x\<bar>\<rfloor> = e" using assms by (intro floor_log2_eqI) simp_all
  with assms(1) show ?thesis by (simp add: round64_def Let_def)
qed

lemma floor_log2_bounds:
  assumes "0 < x"
  shows "2 powi \<lfloor>log 2 x\<rfloor> \<le> x" "x < 2 powi (\<lfloor>log 2 x\<rfloor> + 1)"
proof -
  have p: "(2::real) powr (of_int k) = 2 powi k" for k
    by (simp add: powr_real_of_int')
  have "of_int \<lfloor>log 2 x\<rfloor> \<le> log 2 x" by simp
  then show "2 powi \<lfloor>log 2 x\<rfloor> \<le> x"
    using assms by (simp add: le_log_iff p del: of_int_floor_le)
  have "log 2 x < of_int (\<lfloor>log 2 x\<rfloor> + 1)" by linarith
  then show "x < 2 powi (\<lfloor>log 2 x\<rfloor> + 1)"
    using assms by (subst (asm) log_less_iff) (simp_all add: p del: of_int_add)
qed

lemma round64_scale:
  "round64 (2 powi k * x) = 2 powi k * round64 x"
proof (cases "x = 0")
  case True
  then show ?thesis by (simp add: round64_def)
next
  case False
  let ?e = "\<lfloor>log 2 \<bar>x\<bar>\<rfloor>"
  have pos: "0 < \<bar>x\<bar>" using False by simp
  have k: "(0::real) < 2 powi k" by simp
  have b1: "2 powi (k + ?e) \<le> \<bar>2 powi k * x\<bar>"
    using floor_log2_bounds(1) [OF pos] k by (simp add: power_int_add abs_mult)
  have b2: "\<bar>2 powi k * x\<bar> < 2 powi (k + ?e + 1)"
    using floor_log2_bounds(2) [OF pos] k
    by (simp add: power_int_add abs_mult add.assoc)
  have nz: "2 powi k * x \<noteq> 0" using False by simp
  have q: "2 powi k * x / 2 powi (k + ?e - 52) = x / 2 powi (?e - 52)"
    by (simp add: power_int_add power_int_diff)
  have u: "(2::real) powi (k + ?e - 52) = 2 powi k * 2 powi (?e - 52)"
    by (simp add: power_int_add power_int_diff)
  show ?thesis
    unfolding round64_eqI [OF nz b1 b2] q u
    using False by (simp add: round64_def Let_def)
qed

lemma round_half_even_of_int: "round_half_even (of_int n) = n"
  by (simp add: round_half_even_def)

lemma round64_of_int:
  assumes "\<bar>n\<bar> < 2 ^ 53"
  shows "round64 (of_int n) = of_int n"
proof (cases "n = 0")
  case True
  then show ?thesis by (simp add: round64_def)
next
  case False
  let ?x = "of_int n :: real"
  let ?e = "\<lfloor>log 2 \<bar>?x\<bar>\<rfloor>"
  have pos: "0 < \<bar>?x\<bar>" using False by simp
  have "2 powi ?e \<le> \<bar>?x\<bar>" by (rule floor_log2_bounds(1) [OF pos])
  also have "\<bar>?x\<bar> < 2 powi 53"
  proof -
    have "\<bar>?x\<bar> = of_int \<bar>n\<bar>" by simp
    also have "\<dots> < of_int (2 ^ 53)" using assms by (simp only: of_int_less_iff)
    finally show ?thesis by simp
  qed
  finally have "(2::real) powi ?e < 2 powi 53" .
  have le: "?e \<le> 52"
  proof (rule ccontr)
    assume "\<not> ?e \<le> 52"
    then have "53 \<le> ?e" by simp
    then have "(2::real) powi 53 \<le> 2 powi ?e" by (intro power_int_increasing) simp_all
    with \<open>(2::real) powi ?e < 2 powi 53\<close> show False by simp
  qed
  define j where "j = nat (52 - ?e)"
  have u: "(2::real) powi (?e - 52) = 1 / 2 ^ j"
  proof -
    have "?e - 52 = - int j" using le by (simp add: j_def)
    then have "(2::real) powi (?e - 52) = 2 powi (- int j)" by simp
    also have "\<dots> = 1 / 2 ^ j" by (simp add: power_int_minus divide_inverse)
    finally show ?thesis .
  qed
  have "?x / 2 powi (?e - 52) = of_int (n * 2 ^ j)" by (simp add: u)
  then have "round_half_even (?x / 2 powi (?e - 52)) = n * 2 ^ j"
    by (simp only: round_half_even_of_int)
  then show ?thesis
    using False by (simp add: round64_def Let_def u)
qed

lemma round64_numeral:
  "numeral k < (2 ^ 53 :: int) \<Longrightarrow> round64 (numeral k) = numeral k"
  "numeral k < (2 ^ 53 :: int) \<Longrightarrow> round64 (- numeral k) = - numeral k"
  "round64 1 = 1" "round64 (- 1) = - 1" "round64 0 = 0"
  using round64_of_int [of "numeral k"] round64_of_int [of "- numeral k"] round64_of_int [of 1]
    round64_of_int [of "- 1"]
  by (simp_all add: round64_def)

subsection \<open>Scales that commute with the rounding\<close>

lemma rounded_scale:
  "0 < c \<Longrightarrow> \<forall>x. rnd (c * x) = c * rnd x \<Longrightarrow>
   rounded rnd (fmul (Fin c) z) = fmul (Fin c) (rounded rnd z)"
  by (cases z) (simp_all add: rounded_def inf_of_sign_def)

lemma foldl_fadd_r_scaled:
  assumes c: "0 < c" and r: "\<forall>x. rnd (c * x) = c * rnd x"
  shows "length a' = length a \<Longrightarrow> length a = length m \<Longrightarrow>
   (\<forall>p<length a. m ! p \<longrightarrow> a' ! p = fmul (Fin c) (a ! p)) \<Longrightarrow>
   foldl (fadd_r rnd) (fmul (Fin c) s) (bool_get a' m)
     = fmul (Fin c) (foldl (fadd_r rnd) s (bool_get a m))"
proof (induction a' a m arbitrary: s rule: list_induct3)
  case Nil
  show ?case by simp
next
  case (Cons x' a' x a k m)
  have rest: "\<forall>p<length a. m ! p \<longrightarrow> a' ! p = fmul (Fin c) (a ! p)"
  proof (intro allI impI)
    fix p assume "p < length a" "m ! p"
    with Cons.prems [rule_format, of "Suc p"] show "a' ! p = fmul (Fin c) (a ! p)" by simp
  qed
  show ?case
  proof (cases k)
    case False
    with Cons.IH [OF rest, of s] show ?thesis by simp
  next
    case True
    then have x': "x' = fmul (Fin c) x" using Cons.prems [rule_format, of 0] by simp
    have "fadd_r rnd (fmul (Fin c) s) x' = fmul (Fin c) (fadd_r rnd s x)"
      unfolding x' fadd_r_def using c r
      by (simp add: fmul_pos_fadd [symmetric] rounded_scale)
    with Cons.IH [OF rest, of "fadd_r rnd s x"] True show ?thesis by simp
  qed
qed

lemma np_sum_r_scaled:
  assumes "0 < c" "\<forall>x. rnd (c * x) = c * rnd x"
    "length a' = length a" "length a = length m"
    "\<forall>p<length a. m ! p \<longrightarrow> a' ! p = fmul (Fin c) (a ! p)"
  shows "np_sum_r rnd (bool_get a' m) = fmul (Fin c) (np_sum_r rnd (bool_get a m))"
  using foldl_fadd_r_scaled [where rnd = rnd and c = c and s = "Fin 0", OF assms]
  by (simp add: np_sum_r_def)

lemma bool_set_map2_get_nth:
  assumes "length z = length m" "length m = length a" "length a = length b" "p < length z"
  shows "bool_set z m (map2 f (bool_get a m) (bool_get b m)) ! p
           = (if m ! p then f (a ! p) (b ! p) else z ! p)"
proof -
  have lz: "length m = length (zip a b)" using assms by simp
  have "map2 f (bool_get a m) (bool_get b m) = map (\<lambda>(u, v). f u v) (bool_get (zip a b) m)"
    using assms by (simp add: bool_get_zip)
  then show ?thesis
    using bool_set_map_get [OF assms(1) lz, of "\<lambda>(u, v). f u v"] assms by simp
qed

lemma avg_in_pixel_r_nth:
  assumes "length count = length msk" "length msk = length mf" "p < length count"
  shows "avg_in_pixel_r rnd count mf msk ! p =
     (if msk ! p
      then fdiv_r rnd (fmul_r rnd (mf ! p) (np_sum_r rnd (bool_get count msk)))
             (np_sum_r rnd (bool_get mf msk))
      else Fin 0)"
proof -
  have lz: "length (np_zeros (length count)) = length msk"
    using assms by (simp add: np_zeros_def)
  show ?thesis
    unfolding avg_in_pixel_r_def bool_set_map_get [OF lz assms(2)]
    using assms by (simp add: np_zeros_def)
qed

lemma length_avg_in_pixel_r [simp]: "length (avg_in_pixel_r rnd count mf msk) = length count"
  by (simp add: avg_in_pixel_r_def np_zeros_def)

lemma length_density_r [simp]: "length (density_r rnd count mf msk) = length count"
  by (simp add: density_r_def np_zeros_def)

lemma density_r_nth:
  assumes "length count = length msk" "length msk = length mf" "p < length count"
  shows "density_r rnd count mf msk ! p =
     (if msk ! p
      then fsub_r rnd (fdiv_r rnd (count ! p) (avg_in_pixel_r rnd count mf msk ! p)) (Fin 1)
      else Fin 0)"
proof -
  let ?avg = "avg_in_pixel_r rnd count mf msk"
  have la: "length msk = length ?avg" using assms by simp
  have "density_r rnd count mf msk ! p
        = bool_set (np_zeros (length count)) msk
            (map2 (\<lambda>c a. fsub_r rnd (fdiv_r rnd c a) (Fin 1))
               (bool_get count msk) (bool_get ?avg msk)) ! p"
    by (simp add: density_r_def)
  also have "\<dots> = (if msk ! p
      then fsub_r rnd (fdiv_r rnd (count ! p) (?avg ! p)) (Fin 1) else np_zeros (length count) ! p)"
    using assms la by (intro bool_set_map2_get_nth) (simp_all add: np_zeros_def)
  finally show ?thesis using assms by (simp add: np_zeros_def)
qed

lemma count2density_r_scaled:
  assumes c: "0 < c" and r: "\<forall>x. rnd (c * x) = c * rnd x"
    and len: "length count' = length count"
    and sc: "\<forall>p<length count. msk_of (length count) mask_arg ! p \<longrightarrow>
               count' ! p = fmul (Fin c) (count ! p)"
  shows "count2density_r rnd count' mask_frac_arg mask_arg
           = count2density_r rnd count mask_frac_arg mask_arg"
proof (cases "length (mask_frac_of (length count) mask_frac_arg) \<noteq> length (msk_of (length count) mask_arg)
              \<or> length count \<noteq> length (msk_of (length count) mask_arg)")
  case True
  then show ?thesis using len by (simp add: count2density_r_def Let_def)
next
  case False
  let ?mf = "mask_frac_of (length count) mask_frac_arg"
  let ?msk = "msk_of (length count) mask_arg"
  from False have l1: "length count = length ?msk" and l2: "length ?msk = length ?mf"
    by simp_all
  have l1': "length count' = length ?msk" using len l1 by simp
  have S: "np_sum_r rnd (bool_get count' ?msk) = fmul (Fin c) (np_sum_r rnd (bool_get count ?msk))"
    using c r len l1 sc by (rule np_sum_r_scaled [where rnd = rnd and c = c])
  have "density_r rnd count' ?mf ?msk = density_r rnd count ?mf ?msk"
  proof (rule nth_equalityI)
    show "length (density_r rnd count' ?mf ?msk) = length (density_r rnd count ?mf ?msk)"
      using len by simp
  next
    fix p assume "p < length (density_r rnd count' ?mf ?msk)"
    then have p: "p < length count" "p < length count'" using len by simp_all
    show "density_r rnd count' ?mf ?msk ! p = density_r rnd count ?mf ?msk ! p"
    proof (cases "?msk ! p")
      case False
      then show ?thesis
        using density_r_nth [OF l1 l2 p(1)] density_r_nth [OF l1' l2 p(2)] by simp
    next
      case True
      then have x: "count' ! p = fmul (Fin c) (count ! p)" using sc p by simp
      have "avg_in_pixel_r rnd count' ?mf ?msk ! p
              = fmul (Fin c) (avg_in_pixel_r rnd count ?mf ?msk ! p)"
        using True avg_in_pixel_r_nth [OF l1 l2 p(1)] avg_in_pixel_r_nth [OF l1' l2 p(2)] c r
        by (simp add: S fmul_r_def fdiv_r_def fmul_pos_fmul fdiv_pos_num rounded_scale)
      then show ?thesis
        using True density_r_nth [OF l1 l2 p(1)] density_r_nth [OF l1' l2 p(2)] c x
        by (simp add: fdiv_r_def fdiv_pos_cancel)
    qed
  qed
  then show ?thesis using len by (simp add: count2density_r_def Let_def)
qed

lemma np_sum_r_exact: "np_sum_r (\<lambda>x. x) xs = np_sum xs"
proof -
  have "rounded (\<lambda>x. x) = (\<lambda>z. z)"
    by (rule ext) (simp add: rounded_def split: float64.splits)
  then have "fadd_r (\<lambda>x. x) = fadd" by (intro ext) (simp add: fadd_r_def)
  then show ?thesis by (simp add: np_sum_r_def np_sum_foldl)
qed

lemma count2density_r_exact: "count2density_r (\<lambda>x. x) = count2density"
proof -
  have rd: "rounded (\<lambda>x. x) = (\<lambda>z. z)"
    by (rule ext) (simp add: rounded_def split: float64.splits)
  have ops: "fmul_r (\<lambda>x. x) = fmul" "fdiv_r (\<lambda>x. x) = fdiv" "fsub_r (\<lambda>x. x) = fsub"
    by (intro ext, simp add: fmul_r_def fdiv_r_def fsub_r_def rd)+
  have "avg_in_pixel_r (\<lambda>x. x) = avg_in_pixel"
    by (intro ext) (simp add: avg_in_pixel_r_def avg_in_pixel_def ops np_sum_r_exact)
  then have "density_r (\<lambda>x. x) = density"
    by (intro ext) (simp add: density_r_def density_def ops)
  then show ?thesis
    by (intro ext) (simp add: count2density_r_def count2density_def Let_def)
qed

subsection \<open>The scale 3 in doubles\<close>

lemma round64_eqI2:
  assumes "x \<noteq> 0" "2 powi e \<le> \<bar>x\<bar>" "\<bar>x\<bar> < 2 powi (e + 1)"
    "round_half_even (x / 2 powi (e - 52)) = m" "y = of_int m * 2 powi (e - 52)"
  shows "round64 x = y"
  using round64_eqI [OF assms(1-3)] assms(4,5) by simp

lemma count2density_r_three:
  "count2density_r rnd [c0, c1, c2] (Some [Fin 1, Fin 1, Fin 1])
       (Some (BoolArr [True, True, True]))
   = Inr (map (\<lambda>c. fsub_r rnd
                 (fdiv_r rnd c
                    (fdiv_r rnd (fmul_r rnd (Fin 1) (np_sum_r rnd [c0, c1, c2]))
                       (np_sum_r rnd [Fin 1, Fin 1, Fin 1])))
                 (Fin 1))
            [c0, c1, c2])"
  by (simp add: count2density_r_def mask_frac_of_def msk_of_def density_r_def
      avg_in_pixel_r_def np_zeros_def)

lemma sums_r:
  "np_sum_r round64 [Fin 0, Fin 1, Fin 6] = Fin 7"
  "np_sum_r round64 [Fin 0, Fin 3, Fin 18] = Fin 21"
  "np_sum_r round64 [Fin 1, Fin 1, Fin 1] = Fin 3"
  "fmul_r round64 (Fin 1) (Fin 7) = Fin 7"
  "fmul_r round64 (Fin 1) (Fin 21) = Fin 21"
  "fdiv_r round64 (Fin 21) (Fin 3) = Fin 7"
  "fsub_r round64 (Fin 0) (Fin 1) = Fin (- 1)"
  by (simp_all add: np_sum_r_def fadd_r_def fmul_r_def fdiv_r_def fsub_r_def fsub_def
      rounded_def round64_numeral)

lemma r_7_3: "fdiv_r round64 (Fin 7) (Fin 3) = Fin (5254199565265579 / 2 ^ 51)"
proof -
  have "round64 (7 / 3) = 5254199565265579 / 2 ^ 51"
    by (rule round64_eqI2 [where e = 1 and m = 5254199565265579])
       (simp_all add: round_half_even_def power_int_minus)
  then show ?thesis by (simp add: fdiv_r_def rounded_def)
qed

lemma r_6_a: "fdiv_r round64 (Fin (6)) (Fin (5254199565265579 / 2 ^ 51)) = Fin (5790342378047780 / 2 ^ 51)"
proof -
  have "round64 (6 / (5254199565265579 / 2 ^ 51)) = 5790342378047780 / 2 ^ 51"
    by (rule round64_eqI2 [where e = "1" and m = "5790342378047780"])
       (simp_all add: round_half_even_def power_int_minus)
  then show ?thesis by (simp add: fdiv_r_def fsub_def rounded_def)
qed

lemma r_6_a_1: "fsub_r round64 (Fin (5790342378047780 / 2 ^ 51)) (Fin (1)) = Fin (7077085128725064 / 2 ^ 52)"
proof -
  have "round64 (5790342378047780 / 2 ^ 51 - 1) = 7077085128725064 / 2 ^ 52"
    by (rule round64_eqI2 [where e = "0" and m = "7077085128725064"])
       (simp_all add: round_half_even_def power_int_minus)
  then show ?thesis by (simp add: fsub_r_def fsub_def rounded_def)
qed

lemma r_1_a: "fdiv_r round64 (Fin (1)) (Fin (5254199565265579 / 2 ^ 51)) = Fin (7720456504063707 / 2 ^ 54)"
proof -
  have "round64 (1 / (5254199565265579 / 2 ^ 51)) = 7720456504063707 / 2 ^ 54"
    by (rule round64_eqI2 [where e = "- 2" and m = "7720456504063707"])
       (simp_all add: round_half_even_def power_int_minus)
  then show ?thesis by (simp add: fdiv_r_def fsub_def rounded_def)
qed

lemma r_1_a_1: "fsub_r round64 (Fin (7720456504063707 / 2 ^ 54)) (Fin (1)) = Fin (- (5146971002709138 / 2 ^ 53))"
proof -
  have "round64 (7720456504063707 / 2 ^ 54 - 1) = - (5146971002709138 / 2 ^ 53)"
    by (rule round64_eqI2 [where e = "- 1" and m = "- 5146971002709138"])
       (simp_all add: round_half_even_def power_int_minus)
  then show ?thesis by (simp add: fsub_r_def fsub_def rounded_def)
qed

lemma r_18_7: "fdiv_r round64 (Fin (18)) (Fin (7)) = Fin (5790342378047781 / 2 ^ 51)"
proof -
  have "round64 (18 / 7) = 5790342378047781 / 2 ^ 51"
    by (rule round64_eqI2 [where e = "1" and m = "5790342378047781"])
       (simp_all add: round_half_even_def power_int_minus)
  then show ?thesis by (simp add: fdiv_r_def fsub_def rounded_def)
qed

lemma r_18_7_1: "fsub_r round64 (Fin (5790342378047781 / 2 ^ 51)) (Fin (1)) = Fin (7077085128725066 / 2 ^ 52)"
proof -
  have "round64 (5790342378047781 / 2 ^ 51 - 1) = 7077085128725066 / 2 ^ 52"
    by (rule round64_eqI2 [where e = "0" and m = "7077085128725066"])
       (simp_all add: round_half_even_def power_int_minus)
  then show ?thesis by (simp add: fsub_r_def fsub_def rounded_def)
qed

lemma r_3_7: "fdiv_r round64 (Fin (3)) (Fin (7)) = Fin (7720456504063707 / 2 ^ 54)"
proof -
  have "round64 (3 / 7) = 7720456504063707 / 2 ^ 54"
    by (rule round64_eqI2 [where e = "- 2" and m = "7720456504063707"])
       (simp_all add: round_half_even_def power_int_minus)
  then show ?thesis by (simp add: fdiv_r_def fsub_def rounded_def)
qed

lemma r_0:
  "fdiv_r round64 (Fin 0) (Fin (5254199565265579 / 2 ^ 51)) = Fin 0"
  "fdiv_r round64 (Fin 0) (Fin 7) = Fin 0"
  by (simp_all add: fdiv_r_def rounded_def round64_numeral)

lemma density_r_0_1_6:
  "count2density_r round64 [Fin 0, Fin 1, Fin 6] (Some [Fin 1, Fin 1, Fin 1])
         (Some (BoolArr [True, True, True]))
       = Inr [Fin (- 1), Fin (- (5146971002709138 / 2 ^ 53)), Fin (7077085128725064 / 2 ^ 52)]"
  unfolding count2density_r_three
  by (simp only: sums_r r_0 r_7_3 r_6_a r_6_a_1 r_1_a r_1_a_1 list.map)

lemma density_r_0_3_18:
  "count2density_r round64 [Fin 0, Fin 3, Fin 18] (Some [Fin 1, Fin 1, Fin 1])
         (Some (BoolArr [True, True, True]))
       = Inr [Fin (- 1), Fin (- (5146971002709138 / 2 ^ 53)), Fin (7077085128725066 / 2 ^ 52)]"
  unfolding count2density_r_three
  by (simp only: sums_r r_0 r_18_7 r_18_7_1 r_3_7 r_1_a_1 list.map)

text \<open>
  In doubles the scale 3 changes the result. The counts \<^verbatim>\<open>[0, 1, 6]\<close> and their triple
  \<^verbatim>\<open>[0, 3, 18]\<close>, with completeness one and every pixel in the mask (the sum of the
  completeness is 3 and no local expectation is zero), give densities that differ at the
  last pixel: \<^verbatim>\<open>1.5714285714285712\<close>, from \<^verbatim>\<open>6 / (7 / 3) - 1\<close>, against
  \<^verbatim>\<open>1.5714285714285716\<close>, from \<^verbatim>\<open>18 / 7 - 1\<close>.
\<close>

theorem count2density_scale_counterexample:
  "[Fin 0, Fin 3, Fin 18] = map (fmul (Fin 3)) [Fin 0, Fin 1, Fin 6]
   \<and> np_sum_r round64 [Fin 1, Fin 1, Fin 1] = Fin 3
   \<and> count2density_r round64 [Fin 0, Fin 1, Fin 6] (Some [Fin 1, Fin 1, Fin 1])
         (Some (BoolArr [True, True, True]))
       = Inr [Fin (- 1), Fin (- (5146971002709138 / 2 ^ 53)), Fin (7077085128725064 / 2 ^ 52)]
   \<and> count2density_r round64 [Fin 0, Fin 3, Fin 18] (Some [Fin 1, Fin 1, Fin 1])
         (Some (BoolArr [True, True, True]))
       = Inr [Fin (- 1), Fin (- (5146971002709138 / 2 ^ 53)), Fin (7077085128725066 / 2 ^ 52)]
   \<and> count2density_r round64 [Fin 0, Fin 3, Fin 18] (Some [Fin 1, Fin 1, Fin 1])
         (Some (BoolArr [True, True, True]))
       \<noteq> count2density_r round64 [Fin 0, Fin 1, Fin 6] (Some [Fin 1, Fin 1, Fin 1])
         (Some (BoolArr [True, True, True]))"
proof -
  have c: "[Fin 0, Fin 3, Fin 18] = map (fmul (Fin 3)) [Fin 0, Fin 1, Fin 6]" by simp
  have d: "np_sum_r round64 [Fin 1, Fin 1, Fin 1] = Fin 3" by (rule sums_r)
  show ?thesis unfolding density_r_0_1_6 density_r_0_3_18 using c d by simp
qed

text \<open>
  Claim C4, amended. For every count map, mask and completeness map, \<^verbatim>\<open>count2density\<close>
  returns the same result for the count map and for a count map that holds \<open>c\<close> times
  the count at every masked pixel: in double precision (without overflow or underflow)
  for every scale \<open>c\<close> that is a power of two, and in exact arithmetic for every
  positive \<open>c\<close>. No condition on the normalisation is needed: where a denominator is zero,
  both calls return the same infinities and NaN.
\<close>

theorem count2density_scale_invariant:
  assumes c: "0 < c"
    and len: "length count' = length count"
    and sc: "\<forall>p<length count. msk_of (length count) mask_arg ! p \<longrightarrow>
               count' ! p = fmul (Fin c) (count ! p)"
  shows "((\<exists>k. c = 2 powi k) \<longrightarrow>
            count2density_r round64 count' mask_frac_arg mask_arg
              = count2density_r round64 count mask_frac_arg mask_arg)
       \<and> count2density count' mask_frac_arg mask_arg = count2density count mask_frac_arg mask_arg"
proof
  show "(\<exists>k. c = 2 powi k) \<longrightarrow>
            count2density_r round64 count' mask_frac_arg mask_arg
              = count2density_r round64 count mask_frac_arg mask_arg"
  proof
    assume "\<exists>k. c = 2 powi k"
    then have "\<forall>x. round64 (c * x) = c * round64 x" by (auto simp: round64_scale)
    with c show "count2density_r round64 count' mask_frac_arg mask_arg
              = count2density_r round64 count mask_frac_arg mask_arg"
      using len sc by (rule count2density_r_scaled)
  qed
  have "\<forall>x::real. (\<lambda>x. x) (c * x) = c * (\<lambda>x. x) x" by simp
  with c have "count2density_r (\<lambda>x. x) count' mask_frac_arg mask_arg
              = count2density_r (\<lambda>x. x) count mask_frac_arg mask_arg"
    using len sc by (rule count2density_r_scaled)
  then show "count2density count' mask_frac_arg mask_arg
               = count2density count mask_frac_arg mask_arg"
    by (simp only: count2density_r_exact)
qed

theorem count2density_scale_invariant_witness:
  "count2density_r round64 [Fin 0, Fin 4, Fin 24] (Some [Fin 1, Fin 1, Fin 1])
       (Some (BoolArr [True, True, True]))
   = Inr [Fin (- 1), Fin (- (5146971002709138 / 2 ^ 53)), Fin (7077085128725064 / 2 ^ 52)]"
proof -
  have k: "\<exists>k. (4::real) = 2 powi k" by (rule exI [of _ 2]) simp
  have "count2density_r round64 [Fin 0, Fin 4, Fin 24] (Some [Fin 1, Fin 1, Fin 1])
       (Some (BoolArr [True, True, True]))
   = count2density_r round64 [Fin 0, Fin 1, Fin 6] (Some [Fin 1, Fin 1, Fin 1])
       (Some (BoolArr [True, True, True]))"
    using count2density_scale_invariant [of 4 "[Fin 0, Fin 4, Fin 24]" "[Fin 0, Fin 1, Fin 6]"
        "Some (BoolArr [True, True, True])" "Some [Fin 1, Fin 1, Fin 1]"] k
    by (simp add: msk_of_def nth_Cons' less_Suc_eq numeral_eq_Suc all_conj_distrib)
  then show ?thesis by (simp only: density_r_0_1_6)
qed

section \<open>A zero sum of completeness\<close>

lemma np_sum_nonneg:
  "(\<forall>x\<in>set xs. \<exists>f\<ge>0. x = Fin f) \<Longrightarrow> \<exists>s\<ge>0. np_sum xs = Fin s"
  by (induction xs) auto

lemma np_sum_nonneg_zero:
  "(\<forall>x\<in>set xs. \<exists>f\<ge>0. x = Fin f) \<Longrightarrow> np_sum xs = Fin 0 \<Longrightarrow> \<forall>x\<in>set xs. x = Fin 0"
proof (induction xs)
  case Nil
  show ?case by simp
next
  case (Cons x xs)
  from Cons.prems(1) obtain f where f: "0 \<le> f" "x = Fin f" by auto
  from Cons.prems(1) have "\<exists>s\<ge>0. np_sum xs = Fin s" by (intro np_sum_nonneg) simp
  then obtain s where s: "0 \<le> s" "np_sum xs = Fin s" by blast
  from Cons.prems(2) f s have "f + s = 0" by simp
  with f s have "f = 0" "s = 0" by simp_all
  with Cons.IH Cons.prems(1) f s show ?case by simp
qed

lemma bool_get_nth_mem:
  "length a = length m \<Longrightarrow> p < length a \<Longrightarrow> m ! p \<Longrightarrow> a ! p \<in> set (bool_get a m)"
proof (induction a m arbitrary: p rule: list_induct2)
  case Nil
  then show ?case by simp
next
  case (Cons x a k m)
  then show ?case by (cases p) auto
qed

lemma avg_zero_completeness:
  "fdiv (fmul (Fin 0) S) (Fin 0) = NaN"
  by (cases S) simp_all

lemma fdiv_NaN_right: "fdiv c NaN = NaN"
  by (cases c) simp_all

text \<open>
  With one masked pixel of completeness zero that holds one object, the sum of the
  completeness over the mask is zero and \<^verbatim>\<open>count2density\<close> returns NaN there: no error
  is raised and the map is not zero.
\<close>

theorem count2density_zero_completeness_counterexample:
  "np_sum (bool_get [Fin 0] (astype_bool (BoolArr [True]))) = Fin 0
   \<and> count2density [Fin 1] (Some [Fin 0]) (Some (BoolArr [True])) = Inr [NaN]
   \<and> \<not> fails_with (count2density [Fin 1] (Some [Fin 0]) (Some (BoolArr [True]))) EmptyMaskError"
  by (simp add: count2density_def mask_frac_of_def msk_of_def density_def avg_in_pixel_def
      np_zeros_def fsub_def fails_with_def)

text \<open>
  Claim C5, amended. When the sum of the completeness over the masked pixels is zero (and
  the three maps have one length), \<^verbatim>\<open>count2density\<close> raises no error: it returns a map
  that is zero at every unmasked pixel and NaN at every masked pixel of completeness zero,
  which is every masked pixel when the completeness is finite and not negative there.
\<close>

theorem count2density_zero_completeness:
  assumes l1: "length (mask_frac_of (length count) mask_frac_arg) = length count"
    and l2: "length (msk_of (length count) mask_arg) = length count"
    and z: "np_sum (bool_get (mask_frac_of (length count) mask_frac_arg)
                      (msk_of (length count) mask_arg)) = Fin 0"
  shows "\<exists>d. count2density count mask_frac_arg mask_arg = Inr d \<and> length d = length count
     \<and> (\<forall>p<length count. \<not> msk_of (length count) mask_arg ! p \<longrightarrow> d ! p = Fin 0)
     \<and> (\<forall>p<length count. msk_of (length count) mask_arg ! p \<longrightarrow>
           mask_frac_of (length count) mask_frac_arg ! p = Fin 0 \<longrightarrow> d ! p = NaN)
     \<and> ((\<forall>p<length count. msk_of (length count) mask_arg ! p \<longrightarrow>
            (\<exists>f\<ge>0. mask_frac_of (length count) mask_frac_arg ! p = Fin f)) \<longrightarrow>
         (\<forall>p<length count. msk_of (length count) mask_arg ! p \<longrightarrow> d ! p = NaN))"
proof -
  let ?mf = "mask_frac_of (length count) mask_frac_arg"
  let ?msk = "msk_of (length count) mask_arg"
  let ?d = "density count ?mf ?msk"
  have a1: "length count = length ?msk" and a2: "length ?msk = length ?mf"
    using l1 l2 by simp_all
  have r: "count2density count mask_frac_arg mask_arg = Inr ?d"
    using l1 l2 by (rule count2density_Inr)
  have out: "\<not> ?msk ! p \<Longrightarrow> ?d ! p = Fin 0" if "p < length count" for p
    using density_nth [OF a1 a2 that] by simp
  have inm: "?d ! p = NaN" if "p < length count" "?msk ! p" "?mf ! p = Fin 0" for p
    using density_nth [OF a1 a2 that(1)] avg_in_pixel_nth [OF a1 a2 that(1)] that(2,3) z
    by (simp add: avg_zero_completeness fdiv_NaN_right fsub_def)
  have nonneg: "?mf ! p = Fin 0"
    if h: "\<forall>q<length count. ?msk ! q \<longrightarrow> (\<exists>f\<ge>0. ?mf ! q = Fin f)"
      and p: "p < length count" "?msk ! p" for p
  proof -
    have "\<forall>x\<in>set (bool_get ?mf ?msk). \<exists>f\<ge>0. x = Fin f"
    proof
      fix x assume "x \<in> set (bool_get ?mf ?msk)"
      then obtain q where q: "q < length (zip ?mf ?msk)" "zip ?mf ?msk ! q = (x, True)"
        by (auto simp: bool_get_def in_set_conv_nth)
      then have "q < length count" "?msk ! q" "?mf ! q = x" using l1 l2 by auto
      with h show "\<exists>f\<ge>0. x = Fin f" by auto
    qed
    then have "\<forall>x\<in>set (bool_get ?mf ?msk). x = Fin 0"
      using z by (rule np_sum_nonneg_zero)
    moreover have "?mf ! p \<in> set (bool_get ?mf ?msk)"
      using p l1 l2 by (intro bool_get_nth_mem) simp_all
    ultimately show ?thesis by blast
  qed
  show ?thesis
    unfolding r using out inm nonneg by (intro exI [of _ ?d]) auto
qed

theorem count2density_zero_completeness_witness:
  "\<exists>d. count2density [Fin 3, Fin 4] (Some [Fin 0, Fin 1]) (Some (BoolArr [True, False])) = Inr d
       \<and> d ! 0 = NaN \<and> d ! 1 = Fin 0"
  using count2density_zero_completeness [of "[Fin 3, Fin 4]" "Some [Fin 0, Fin 1]"
      "Some (BoolArr [True, False])"]
  by (auto simp: mask_frac_of_def msk_of_def)

section \<open>Errors of the parts of make_healpix_map\<close>

lemma check_weight_error:
  "check_weight q2 weight = Inl e \<Longrightarrow>
   e = AssertionError QuantityWeightShape \<or> e = AssertionError WeightNotPositive"
  by (auto simp: check_weight_def split: option.splits if_splits)

lemma check_quantity_error:
  "check_quantity ra dec quantity weight = Inl e \<Longrightarrow>
   e \<in> {AssertionError QuantityWeightShape, AssertionError WeightNotPositive,
        AssertionError QuantityWeightLength, AssertionError RaDecLength}"
  by (auto simp: check_quantity_def Let_def split: option.splits sum.splits if_splits
      dest: check_weight_error)

lemma add_at_error: "add_at a ivs = Inl e \<Longrightarrow> e = IndexError"
  by (induction a ivs rule: add_at.induct) (auto split: if_splits)

lemma np_add_at_error: "np_add_at a idx vals = Inl e \<Longrightarrow> e = IndexError \<or> e = ValueError"
  by (auto simp: np_add_at_def broadcast_to_def split: sum.splits if_splits dest: add_at_error)

lemma get_ipix_error: "get_ipix hp nside ra dec = Inl e \<Longrightarrow> e = ValueError"
  by (auto simp: get_ipix_def broadcast2_def split: if_splits)

lemma quantity_map_error:
  "quantity_map npix ipix bm x qrow wrow = Inl e \<Longrightarrow> e = IndexError \<or> e = ValueError"
  by (auto simp: quantity_map_def Let_def split: sum.splits dest: np_add_at_error)

lemma for_rows_error: "for_rows f is = Inl e \<Longrightarrow> \<exists>i\<in>set is. f i = Inl e"
  by (induction "is") (auto split: sum.splits)

lemma derived_mask_positive:
  "list_all (\<lambda>c. fgt c (Fin 0))
     (bool_get (bool_fill count0 (logical_not (map (\<lambda>c. fgt c (Fin 0)) count0)) x)
               (map (\<lambda>c. fgt c (Fin 0)) count0))"
  by (induction count0) (simp_all add: bool_fill_def logical_not_def)

text \<open>
  Claim C9. When \<^verbatim>\<open>make_healpix_map\<close> is called with \<^verbatim>\<open>mask=None\<close>, the assertion that the
  count is positive on the mask cannot fail: the mask is derived as the pixels with a
  positive count, so for every input the function does not end with that assertion
  (MaskCoverageError).
\<close>

theorem derived_mask_check_passes:
  "make_healpix_map hp ra dec quantity nside None weight fill_UNSEEN return_extra
     \<noteq> Inl (AssertionError CountNotPositive)
   \<and> \<not> fails_with (make_healpix_map hp ra dec quantity nside None weight fill_UNSEEN return_extra)
         MaskCoverageError"
proof -
  have "e \<noteq> AssertionError CountNotPositive"
    if "make_healpix_map hp ra dec quantity nside None weight fill_UNSEEN return_extra = Inl e" for e
    using that
    by (auto simp: make_healpix_map_def Let_def derived_mask_positive
        split: sum.splits option.splits if_splits prod.splits
        dest!: check_quantity_error get_ipix_error np_add_at_error for_rows_error quantity_map_error)
  moreover have "spec_error_of e = Some MaskCoverageError \<Longrightarrow> e = AssertionError CountNotPositive" for e
    by (cases e rule: spec_error_of.cases) simp_all
  ultimately show ?thesis
    by (auto simp: fails_with_def split: sum.splits)
qed


theorem derived_mask_check_passes_witness:
  "make_healpix_map lon_healpy [Fin 10, Fin 200, Fin 20] [Fin 0, Fin 0, Fin 0] None 1 None None
       False False \<noteq> Inl (AssertionError CountNotPositive)
   \<and> make_healpix_map lon_healpy [Fin 10, Fin 200, Fin 20] [Fin 0, Fin 0, Fin 0] None 1 None None
       False False = Inr ([], [Fin 2, Fin 1], FloatArr [Fin 1, Fin 1], None)"
  using derived_mask_check_passes [of lon_healpy "[Fin 10, Fin 200, Fin 20]"
      "[Fin 0, Fin 0, Fin 0]" None 1 None False False]
  by (simp add: make_healpix_map_def check_quantity_def lon_healpy_def get_ipix_def
      Let_def numeral_2_eq_2 broadcast2_def longitude_def colatitude_def np_pi_def np_add_at_def broadcast_to_def
      np_zeros_def fgt_def bool_fill_def logical_not_def float_of_bool_def fsub_def)

text \<open>
  Claim C7, as the code has it. A one-dimensional \<^verbatim>\<open>quantity\<close> with a one-dimensional
  \<^verbatim>\<open>weight\<close>, whatever their lengths and values, fails the assertion on the shapes: the
  shape of \<^verbatim>\<open>quantity\<close> is taken after \<^verbatim>\<open>np.atleast_2d\<close> made it two-dimensional, the
  shape of \<^verbatim>\<open>weight\<close> before.
\<close>

theorem weight_1d_shape_assertion:
  "make_healpix_map hp ra dec (Some (Arr1 qs)) nside mask_arg (Some (Arr1 ws)) fill_UNSEEN
       return_extra = Inl (AssertionError QuantityWeightShape)
   \<and> fails_with (make_healpix_map hp ra dec (Some (Arr1 qs)) nside mask_arg (Some (Arr1 ws))
         fill_UNSEEN return_extra) ShapeMismatch"
  by (simp add: make_healpix_map_def check_quantity_def check_weight_def fails_with_def)

theorem weight_1d_shape_assertion_witness:
  "shape (Arr1 [Fin 3, Fin 5]) = shape (Arr1 [Fin 1, Fin 1])
   \<and> list_all (\<lambda>x. fgt x (Fin 0)) (elements (Arr1 [Fin 1, Fin 1]))
   \<and> fails_with (make_healpix_map lon_healpy [Fin 10, Fin 10] [Fin 0, Fin 0]
         (Some (Arr1 [Fin 3, Fin 5])) 1 None (Some (Arr1 [Fin 1, Fin 1])) False False)
        ShapeMismatch"
  using weight_1d_shape_assertion [of lon_healpy "[Fin 10, Fin 10]" "[Fin 0, Fin 0]"
      "[Fin 3, Fin 5]" 1 None "[Fin 1, Fin 1]" False False]
  by (simp add: fgt_def fails_with_def)

text \<open>
  Two calls with \<^verbatim>\<open>ra\<close> and \<^verbatim>\<open>dec\<close> of different lengths that do not fail with
  ShapeMismatch. Without a quantity, two right ascensions and one declination are
  broadcast to two objects and the count map is returned. With a quantity and a weight
  of its shape that is not positive, the assertion on the weight comes first.
\<close>

theorem ra_dec_length_counterexample:
  "length [Fin 10, Fin 200] \<noteq> length [Fin (0::real)]
   \<and> make_healpix_map lon_healpy [Fin 10, Fin 200] [Fin 0] None 1 None None False False
       = Inr ([], [Fin 1, Fin 1], FloatArr [Fin 1, Fin 1], None)
   \<and> make_healpix_map lon_healpy [Fin 10, Fin 200] [Fin 0] (Some (Arr2 [[Fin 3]])) 1 None
         (Some (Arr2 [[Fin 0]])) False False = Inl (AssertionError WeightNotPositive)
   \<and> \<not> fails_with (make_healpix_map lon_healpy [Fin 10, Fin 200] [Fin 0]
           (Some (Arr2 [[Fin 3]])) 1 None (Some (Arr2 [[Fin 0]])) False False) ShapeMismatch"
  by (simp add: make_healpix_map_def check_quantity_def check_weight_def ncols_def
      lon_healpy_def get_ipix_def fails_with_def Let_def numeral_2_eq_2
      broadcast2_def longitude_def colatitude_def np_pi_def np_add_at_def broadcast_to_def
      np_zeros_def fgt_def bool_fill_def logical_not_def float_of_bool_def fsub_def)

text \<open>
  Claim C6, amended. When a quantity is given and \<^verbatim>\<open>ra\<close> and \<^verbatim>\<open>dec\<close> differ in length,
  \<^verbatim>\<open>make_healpix_map\<close> fails in its first block, before any aggregation: with
  ShapeMismatch, or with InvalidWeight when the weight has the shape of the quantity and
  an entry that is not positive.
\<close>

theorem ra_dec_length_with_quantity:
  assumes "length ra \<noteq> length dec"
  shows "\<exists>e. check_quantity ra dec (Some q) weight = Inl e
     \<and> make_healpix_map hp ra dec (Some q) nside mask_arg weight fill_UNSEEN return_extra = Inl e
     \<and> (spec_error_of e = Some ShapeMismatch
        \<or> spec_error_of e = Some InvalidWeight
          \<and> (\<exists>w. weight = Some w \<and> shape w = shape (Arr2 (atleast_2d q))
                \<and> \<not> list_all (\<lambda>x. fgt x (Fin 0)) (elements w)))"
proof -
  let ?K = "\<lambda>e. spec_error_of e = Some ShapeMismatch
        \<or> spec_error_of e = Some InvalidWeight
          \<and> (\<exists>w. weight = Some w \<and> shape w = shape (Arr2 (atleast_2d q))
                \<and> \<not> list_all (\<lambda>x. fgt x (Fin 0)) (elements w))"
  have "\<exists>e. check_quantity ra dec (Some q) weight = Inl e \<and> ?K e"
  proof (cases "check_weight (atleast_2d q) weight")
    case (Inl e)
    then have "e = AssertionError QuantityWeightShape \<or>
        e = AssertionError WeightNotPositive \<and> (\<exists>w. weight = Some w \<and>
           shape w = shape (Arr2 (atleast_2d q)) \<and> \<not> list_all (\<lambda>x. fgt x (Fin 0)) (elements w))"
      by (auto simp: check_weight_def split: option.splits if_splits)
    then have "?K e" by auto
    with Inl show ?thesis by (simp add: check_quantity_def)
  next
    case (Inr weight2)
    show ?thesis
    proof (cases "ncols (atleast_2d q) = ncols weight2")
      case True
      with Inr assms have "check_quantity ra dec (Some q) weight = Inl (AssertionError RaDecLength)"
        by (simp add: check_quantity_def)
      then show ?thesis by simp
    next
      case False
      with Inr have "check_quantity ra dec (Some q) weight = Inl (AssertionError QuantityWeightLength)"
        by (simp add: check_quantity_def)
      then show ?thesis by simp
    qed
  qed
  then obtain e where e: "check_quantity ra dec (Some q) weight = Inl e" and k: "?K e"
    by blast
  have "make_healpix_map hp ra dec (Some q) nside mask_arg weight fill_UNSEEN return_extra = Inl e"
    using e by (simp add: make_healpix_map_def)
  with e k show ?thesis by blast
qed

theorem ra_dec_length_with_quantity_witness:
  "fails_with (make_healpix_map lon_healpy [Fin 10, Fin 200] [Fin 0] (Some (Arr1 [Fin 3, Fin 5]))
       1 None None False False) ShapeMismatch"
  using ra_dec_length_with_quantity [of "[Fin 10, Fin 200]" "[Fin 0]" "Arr1 [Fin 3, Fin 5]" None
      lon_healpy 1 None False False]
  by (auto simp: fails_with_def)

text \<open>
  Claim C2, as the code has it. In the module as it is written the name \<^verbatim>\<open>quantity\<close> is
  not bound, so every call of \<^verbatim>\<open>overdensity\<close> ends with NameError when the arguments of
  \<^verbatim>\<open>make_healpix_map\<close> are evaluated: no count map and no density map is computed.
\<close>

theorem overdensity_name_error:
  "overdensity hp deltag_quantity ras decs mask_frac nside = Inl (NameError ''quantity'')"
  by (simp add: overdensity_def deltag_quantity_def)

theorem overdensity_name_error_witness:
  "overdensity lon_healpy deltag_quantity [Fin 10] [Fin 0] [Fin 1, Fin 1] 1
     = Inl (NameError ''quantity'')
   \<and> (\<forall>d. overdensity lon_healpy deltag_quantity [Fin 10] [Fin 0] [Fin 1, Fin 1] 1 \<noteq> Inr d)"
  using overdensity_name_error [of lon_healpy "[Fin 10]" "[Fin 0]" "[Fin 1, Fin 1]" 1]
  by simp

section \<open>The scatter-add\<close>

lemma broadcast_to_scalar: "broadcast_to n [v] = Inr (replicate n v)"
  by (cases "n = 1") (simp_all add: broadcast_to_def)

lemma fadd_Fin_assoc: "fadd (fadd x (Fin a)) (Fin b) = fadd x (Fin (a + b))"
  by (cases x) simp_all

lemma fadd_Fin_0: "fadd x (Fin 0) = x"
  by (cases x) simp_all

lemma add_at_length: "add_at a ivs = Inr a' \<Longrightarrow> length a' = length a"
  by (induction a ivs rule: add_at.induct) (auto split: if_splits)

lemma add_at_untouched:
  "add_at a ivs = Inr a' \<Longrightarrow> p \<notin> fst ` set ivs \<Longrightarrow> a' ! p = a ! p"
  by (induction a ivs rule: add_at.induct) (auto split: if_splits)

lemma add_at_ones:
  "\<forall>i\<in>set idx. i < length a \<Longrightarrow>
   \<exists>a'. add_at a (zip idx (replicate (length idx) (Fin 1))) = Inr a' \<and> length a' = length a
      \<and> (\<forall>p<length a. a' ! p = fadd (a ! p) (Fin (real (count_list idx p))))"
proof (induction idx arbitrary: a)
  case Nil
  show ?case by (simp add: fadd_Fin_0)
next
  case (Cons i idx)
  let ?b = "a[i := fadd (a ! i) (Fin 1)]"
  have "\<forall>j\<in>set idx. j < length ?b" using Cons.prems by simp
  from Cons.IH [OF this] obtain a' where
    a': "add_at ?b (zip idx (replicate (length idx) (Fin 1))) = Inr a'" "length a' = length a"
      "\<forall>p<length a. a' ! p = fadd (?b ! p) (Fin (real (count_list idx p)))"
    by auto
  have "a' ! p = fadd (a ! p) (Fin (real (count_list (i # idx) p)))" if "p < length a" for p
  proof (cases "p = i")
    case True
    with a'(3) that show ?thesis by (simp add: fadd_Fin_assoc)
  next
    case False
    with a'(3) that show ?thesis by simp
  qed
  with a' Cons.prems show ?case by simp
qed

lemma np_add_at_count:
  assumes "\<forall>i\<in>set ipix. i < npix"
  shows "np_add_at (np_zeros npix) ipix [Fin 1] =
           Inr (map (\<lambda>p. Fin (real (count_list ipix p))) [0..<npix])"
proof -
  from add_at_ones [of ipix "np_zeros npix"] assms obtain a' where
    a': "add_at (np_zeros npix) (zip ipix (replicate (length ipix) (Fin 1))) = Inr a'"
      "length a' = npix"
      "\<forall>p<npix. a' ! p = fadd (np_zeros npix ! p) (Fin (real (count_list ipix p)))"
    by (auto simp: np_zeros_def)
  have "a' = map (\<lambda>p. Fin (real (count_list ipix p))) [0..<npix]"
    using a'(2,3) by (intro nth_equalityI) (simp_all add: np_zeros_def)
  with a'(1) show ?thesis by (simp add: np_add_at_def broadcast_to_scalar)
qed

lemma np_sum_Fin: "np_sum (map (\<lambda>p. Fin (f p)) ps) = Fin (sum_list (map f ps))"
  by (induction ps) simp_all

lemma sum_count_list_upt:
  assumes "\<forall>i\<in>set ipix. i < npix"
  shows "sum_list (map (\<lambda>p. real (count_list ipix p)) [0..<npix]) = real (length ipix)"
proof -
  have "sum_list (map (\<lambda>p. real (count_list ipix p)) [0..<npix])
        = (\<Sum>p\<in>{0..<npix}. real (count_list ipix p))"
    by (simp add: interv_sum_list_conv_sum_set_nat)
  also have "\<dots> = real (\<Sum>p\<in>{0..<npix}. count_list ipix p)" by simp
  also have "(\<Sum>p\<in>{0..<npix}. count_list ipix p) = length ipix"
    using assms by (intro sum_count_set) auto
  finally show ?thesis .
qed

lemma bool_fill_same:
  "length a = length m \<Longrightarrow> (\<forall>p<length a. m ! p \<longrightarrow> a ! p = x) \<Longrightarrow> bool_fill a m x = a"
  by (intro nth_equalityI) (auto simp: bool_fill_def)


section \<open>What a successful call of make_healpix_map went through\<close>

lemma make_healpix_map_InrD:
  assumes "make_healpix_map hp ra dec quantity nside mask_arg weight fill_UNSEEN return_extra
             = Inr (outmaps, count, rm, ex)"
  obtains qw ipix count0 where
    "check_quantity ra dec quantity weight = Inr qw"
    "case mask_arg of None \<Rightarrow> True | Some m \<Rightarrow> len_mask m = nside2npix hp nside"
    "get_ipix hp nside ra dec = Inr ipix"
    "np_add_at (np_zeros (nside2npix hp nside)) ipix [Fin 1] = Inr count0"
    "count = bool_fill count0
       (logical_not (case mask_arg of None \<Rightarrow> map (\<lambda>c. fgt c (Fin 0)) count0
                                    | Some m \<Rightarrow> astype_bool m))
       (if fill_UNSEEN then UNSEEN else Fin 0)"
    "(case qw of
        None \<Rightarrow> Inr []
      | Some (quantity2, weight2) \<Rightarrow>
          for_rows (\<lambda>i. quantity_map (nside2npix hp nside) ipix
                          (case mask_arg of None \<Rightarrow> map (\<lambda>c. fgt c (Fin 0)) count0
                                          | Some m \<Rightarrow> astype_bool m)
                          (if fill_UNSEEN then UNSEEN else Fin 0)
                          (quantity2 ! i) (weight2 ! i))
            [0 ..< length quantity2]) = Inr outmaps"
  using assms unfolding make_healpix_map_def Let_def
  by (auto split: sum.splits if_splits option.splits)

lemma get_ipix_same_length:
  "length ra = length dec \<Longrightarrow>
   get_ipix hp nside ra dec = Inr (map (object_pixel hp nside ra dec) [0..<length ra])"
  by (auto simp: get_ipix_def broadcast2_def object_pixel_def intro!: nth_equalityI)

lemma check_quantity_Some_length:
  "check_quantity ra dec quantity weight = Inr (Some qw) \<Longrightarrow> length ra = length dec"
  by (auto simp: check_quantity_def Let_def split: option.splits sum.splits if_splits)

lemma check_quantity_Some_rows:
  "check_quantity ra dec (Some q) weight = Inr qw \<Longrightarrow> \<exists>w2. qw = Some (atleast_2d q, w2)"
  by (auto simp: check_quantity_def Let_def split: option.splits sum.splits if_splits)

lemma make_healpix_map_returned_mask:
  assumes r: "make_healpix_map hp ra dec quantity nside mask_arg weight fill_UNSEEN return_extra
             = Inr (outmaps, count, rm, ex)"
    and a: "np_add_at (np_zeros (nside2npix hp nside)) ipix [Fin 1] = Inr count0"
    and i: "get_ipix hp nside ra dec = Inr ipix"
  shows "rm = (case mask_arg of
             None \<Rightarrow> FloatArr (map float_of_bool (map (\<lambda>c. fgt c (Fin 0)) count0))
           | Some m \<Rightarrow> m)"
proof -
  from r obtain qw where q: "check_quantity ra dec quantity weight = Inr qw"
    by (rule make_healpix_map_InrD)
  show ?thesis
    using r a unfolding make_healpix_map_def Let_def q i
    by (auto split: if_splits sum.splits option.splits)
qed

lemma astype_bool_float_of_bool: "astype_bool (FloatArr (map float_of_bool bm)) = bm"
  by (induction bm) (simp_all add: float_of_bool_def)

lemma sum_list_gap_zero:
  fixes a g :: "nat \<Rightarrow> real"
  assumes "\<forall>p\<in>set ps. g p \<le> a p"
  shows "sum_list (map g ps) = sum_list (map a ps) \<longleftrightarrow> (\<forall>p\<in>set ps. g p = a p)"
proof -
  have "sum_list (map (\<lambda>p. a p - g p) ps) = 0 \<longleftrightarrow> (\<forall>x\<in>set (map (\<lambda>p. a p - g p) ps). x = 0)"
    using assms by (intro sum_list_nonneg_eq_0_iff) auto
  then show ?thesis by (auto simp: sum_list_subtractf)
qed


lemma UNSEEN_negative: "UNSEEN = Fin u \<Longrightarrow> u < 0"
  by (simp add: UNSEEN_def)

text \<open>
  Two calls on two objects in pixel 4 whose count map does not sum to two: with a
  mask that leaves pixel 4 out the count map is zero everywhere, and with a derived
  mask and the fill value \<^verbatim>\<open>hp.UNSEEN\<close> the eleven empty pixels hold the sentinel.
\<close>

theorem count_map_sum_counterexample:
  "make_healpix_map equator_healpy [Fin 10, Fin 20] [Fin 0, Fin 0] None 1
       (Some (BoolArr [True, True, True, True, False, True, True, True, True, True, True, True]))
       None False False
     = Inr ([], [Fin 0, Fin 0, Fin 0, Fin 0, Fin 0, Fin 0, Fin 0, Fin 0, Fin 0, Fin 0, Fin 0, Fin 0],
            BoolArr [True, True, True, True, False, True, True, True, True, True, True, True],
            None)
   \<and> np_sum [Fin 0, Fin 0, Fin 0, Fin 0, Fin 0, Fin 0, Fin 0, Fin 0, Fin 0, Fin 0, Fin 0, Fin 0]
       \<noteq> Fin (real (length [Fin 10, Fin (20::real)]))
   \<and> make_healpix_map equator_healpy [Fin 10, Fin 20] [Fin 0, Fin 0] None 1 None None True False
     = Inr ([], [UNSEEN, UNSEEN, UNSEEN, UNSEEN, Fin 2, UNSEEN, UNSEEN, UNSEEN, UNSEEN, UNSEEN,
                 UNSEEN, UNSEEN],
            FloatArr [Fin 0, Fin 0, Fin 0, Fin 0, Fin 1, Fin 0, Fin 0, Fin 0, Fin 0, Fin 0, Fin 0,
                      Fin 0],
            None)
   \<and> np_sum [UNSEEN, UNSEEN, UNSEEN, UNSEEN, Fin 2, UNSEEN, UNSEEN, UNSEEN, UNSEEN, UNSEEN,
              UNSEEN, UNSEEN]
       \<noteq> Fin (real (length [Fin 10, Fin (20::real)]))"
  by (simp add: make_healpix_map_def check_quantity_def equator_healpy_def get_ipix_def
      Let_def broadcast2_def longitude_def colatitude_def np_pi_def
      np_add_at_def broadcast_to_def np_zeros_def fgt_def bool_fill_def logical_not_def
      float_of_bool_def fsub_def UNSEEN_def eval_nat_numeral)


text \<open>
  Claim C3, amended. For a catalog whose objects all fall on the pixel grid, the count
  map that \<^verbatim>\<open>make_healpix_map\<close> returns holds at each pixel of the mask the number of
  objects in that pixel and at each pixel outside the mask the fill value, zero or
  \<^verbatim>\<open>hp.UNSEEN\<close>; a derived mask (\<^verbatim>\<open>mask=None\<close>) is the set of pixels that hold an
  object, a given mask is returned as it is. So the count map sums to the number of
  objects if and only if no pixel outside the mask holds an object and, where a pixel
  lies outside the mask, the fill value is zero; in particular it does with a derived
  mask and the fill value zero. Without a quantity, and with a mask of the length of the
  grid if one is given, the call does return.
\<close>

theorem count_map_sum:
  assumes len: "length ra = length dec"
    and grid: "\<forall>k<length ra. object_pixel hp nside ra dec k < nside2npix hp nside"
  shows "(\<forall>outmaps count rm ex.
            make_healpix_map hp ra dec quantity nside mask_arg weight fill_UNSEEN return_extra
              = Inr (outmaps, count, rm, ex) \<longrightarrow>
            length count = nside2npix hp nside
            \<and> (\<forall>p<nside2npix hp nside.
                  count ! p = (if astype_bool rm ! p
                               then Fin (real (objects_in hp nside ra dec p))
                               else if fill_UNSEEN then UNSEEN else Fin 0))
            \<and> (\<forall>m. mask_arg = Some m \<longrightarrow> rm = m)
            \<and> (mask_arg = None \<longrightarrow>
                 (\<forall>p<nside2npix hp nside.
                    astype_bool rm ! p \<longleftrightarrow> 0 < objects_in hp nside ra dec p))
            \<and> (np_sum count = Fin (real (length ra)) \<longleftrightarrow>
                 (\<forall>p<nside2npix hp nside.
                    \<not> astype_bool rm ! p \<longrightarrow>
                    \<not> fill_UNSEEN \<and> objects_in hp nside ra dec p = 0))
            \<and> (mask_arg = None \<and> \<not> fill_UNSEEN \<longrightarrow> np_sum count = Fin (real (length ra))))
       \<and> ((\<forall>m. mask_arg = Some m \<longrightarrow> len_mask m = nside2npix hp nside) \<longrightarrow>
          (\<exists>count rm ex.
             make_healpix_map hp ra dec None nside mask_arg weight fill_UNSEEN return_extra
               = Inr ([], count, rm, ex)))"
proof -
  let ?npix = "nside2npix hp nside"
  let ?ipix = "map (object_pixel hp nside ra dec) [0..<length ra]"
  let ?n = "\<lambda>p. objects_in hp nside ra dec p"
  let ?c0 = "map (\<lambda>p. Fin (real (count_list ?ipix p))) [0..<?npix]"
  let ?x = "if fill_UNSEEN then UNSEEN else Fin 0"
  let ?bm = "case mask_arg of None \<Rightarrow> map (\<lambda>c. fgt c (Fin 0)) ?c0 | Some m \<Rightarrow> astype_bool m"
  have ipix: "get_ipix hp nside ra dec = Inr ?ipix"
    using len by (rule get_ipix_same_length)
  have ongrid: "\<forall>i\<in>set ?ipix. i < ?npix" using grid by auto
  have c0: "np_add_at (np_zeros ?npix) ?ipix [Fin 1] = Inr ?c0"
    using ongrid by (rule np_add_at_count)
  have nobj: "count_list ?ipix p = ?n p" for p by (simp add: objects_in_def)
  have tot: "sum_list (map (\<lambda>p. real (?n p)) [0..<?npix]) = real (length ra)"
    using sum_count_list_upt [OF ongrid] by (simp add: nobj)
  obtain xr where xr: "?x = Fin xr" "xr \<le> 0" "xr = 0 \<longleftrightarrow> \<not> fill_UNSEEN"
    by (cases fill_UNSEEN) (simp_all add: UNSEEN_def)
  have first: "length count = ?npix
      \<and> (\<forall>p<?npix. count ! p = (if astype_bool rm ! p then Fin (real (?n p)) else ?x))
      \<and> (\<forall>m. mask_arg = Some m \<longrightarrow> rm = m)
      \<and> (mask_arg = None \<longrightarrow> (\<forall>p<?npix. astype_bool rm ! p \<longleftrightarrow> 0 < ?n p))
      \<and> (np_sum count = Fin (real (length ra)) \<longleftrightarrow>
           (\<forall>p<?npix. \<not> astype_bool rm ! p \<longrightarrow> \<not> fill_UNSEEN \<and> ?n p = 0))
      \<and> (mask_arg = None \<and> \<not> fill_UNSEEN \<longrightarrow> np_sum count = Fin (real (length ra)))"
    if r: "make_healpix_map hp ra dec quantity nside mask_arg weight fill_UNSEEN return_extra
             = Inr (outmaps, count, rm, ex)" for outmaps count rm ex
  proof -
    from r obtain count0 where
      m: "case mask_arg of None \<Rightarrow> True | Some m \<Rightarrow> len_mask m = ?npix"
      and a: "np_add_at (np_zeros ?npix) ?ipix [Fin 1] = Inr count0"
      and c: "count = bool_fill count0
                (logical_not (case mask_arg of None \<Rightarrow> map (\<lambda>c. fgt c (Fin 0)) count0
                                             | Some m \<Rightarrow> astype_bool m)) ?x"
      by (rule make_healpix_map_InrD) (simp add: ipix)
    from a c0 have eq: "count0 = ?c0" by simp
    have cnt: "count = bool_fill ?c0 (logical_not ?bm) ?x"
      using c unfolding eq .
    have rm: "rm = (case mask_arg of
                      None \<Rightarrow> FloatArr (map float_of_bool (map (\<lambda>c. fgt c (Fin 0)) ?c0))
                    | Some m \<Rightarrow> m)"
      using make_healpix_map_returned_mask [OF r c0 ipix] .
    have bm: "astype_bool rm = ?bm"
      unfolding rm by (cases mask_arg) (simp_all only: option.case astype_bool_float_of_bool)
    have lbm: "length ?bm = ?npix"
    proof (cases mask_arg)
      case None
      then show ?thesis by simp
    next
      case (Some mk)
      with m show ?thesis by (cases mk) simp_all
    qed
    have lc: "length count = ?npix" unfolding cnt using lbm by (simp add: bool_fill_def logical_not_def)
    have nth: "count ! p = (if ?bm ! p then Fin (real (?n p)) else ?x)" if "p < ?npix" for p
      unfolding cnt using that lbm by (simp add: bool_fill_def logical_not_def nobj)
    have derived: "?bm ! p \<longleftrightarrow> 0 < ?n p" if "mask_arg = None" "p < ?npix" for p
      using that by (simp add: fgt_def nobj)
    have given: "\<forall>mk. mask_arg = Some mk \<longrightarrow> rm = mk" unfolding rm by simp
    let ?g = "\<lambda>p. if ?bm ! p then real (?n p) else xr"
    have "count = map (\<lambda>p. Fin (?g p)) [0..<?npix]"
      using lc nth xr(1) by (intro nth_equalityI) auto
    then have "np_sum count = Fin (sum_list (map ?g [0..<?npix]))"
      by (simp only: np_sum_Fin)
    moreover have "sum_list (map ?g [0..<?npix]) = sum_list (map (\<lambda>p. real (?n p)) [0..<?npix])
        \<longleftrightarrow> (\<forall>p\<in>set [0..<?npix]. ?g p = real (?n p))"
      using xr(2) by (intro sum_list_gap_zero) auto
    moreover have "(\<forall>p\<in>set [0..<?npix]. ?g p = real (?n p))
        \<longleftrightarrow> (\<forall>p<?npix. \<not> ?bm ! p \<longrightarrow> \<not> fill_UNSEEN \<and> ?n p = 0)"
    proof -
      have "xr = real k \<longleftrightarrow> \<not> fill_UNSEEN \<and> k = 0" for k :: nat
        using xr(2,3) by (cases "k = 0") auto
      then show ?thesis by auto
    qed
    ultimately have iff: "np_sum count = Fin (real (length ra)) \<longleftrightarrow>
        (\<forall>p<?npix. \<not> ?bm ! p \<longrightarrow> \<not> fill_UNSEEN \<and> ?n p = 0)"
      using tot by simp
    have part: "np_sum count = Fin (real (length ra))" if "mask_arg = None" "\<not> fill_UNSEEN"
      unfolding iff using derived [OF that(1)] that(2) by auto
    show ?thesis
      unfolding bm using lc nth given derived iff part by blast
  qed
  have second: "\<exists>count rm ex.
       make_healpix_map hp ra dec None nside mask_arg weight fill_UNSEEN return_extra
         = Inr ([], count, rm, ex)"
    if m: "\<forall>m. mask_arg = Some m \<longrightarrow> len_mask m = ?npix"
  proof (cases mask_arg)
    case None
    let ?dm = "map (\<lambda>c. fgt c (Fin 0)) ?c0"
    have pos: "list_all (\<lambda>c. fgt c (Fin 0)) (bool_get (bool_fill ?c0 (logical_not ?dm) ?x) ?dm)"
      by (rule derived_mask_positive)
    have "make_healpix_map hp ra dec None nside mask_arg weight fill_UNSEEN return_extra
         = Inr ([], bool_fill ?c0 (logical_not ?dm) ?x, FloatArr (map float_of_bool ?dm),
                if return_extra
                then Some (make_extra hp nside (bool_fill ?c0 (logical_not ?dm) ?x) ?dm ?ipix)
                else None)"
      unfolding make_healpix_map_def check_quantity_def Let_def None
      using pos by (simp add: ipix c0)
    then show ?thesis by blast
  next
    case (Some mk)
    have "make_healpix_map hp ra dec None nside mask_arg weight fill_UNSEEN return_extra
         = Inr ([], bool_fill ?c0 (logical_not (astype_bool mk)) ?x, mk,
                if return_extra
                then Some (make_extra hp nside (bool_fill ?c0 (logical_not (astype_bool mk)) ?x)
                             (astype_bool mk) ?ipix)
                else None)"
      unfolding make_healpix_map_def check_quantity_def Let_def Some
      using m Some by (simp add: ipix c0)
    then show ?thesis by blast
  qed
  from first second show ?thesis by blast
qed

theorem count_map_sum_witness:
  "\<exists>count rm ex.
     make_healpix_map equator_healpy [Fin 10, Fin 20, Fin 200] [Fin 0, Fin 0, Fin 0] None 1 None
         None False False = Inr ([], count, rm, ex)
     \<and> np_sum count = Fin 3"
proof -
  have g: "\<forall>k<length [Fin 10, Fin 20, Fin 200].
      object_pixel equator_healpy 1 [Fin 10, Fin 20, Fin 200] [Fin 0, Fin 0, Fin 0] k
        < nside2npix equator_healpy 1"
    by (simp add: equator_healpy_def object_pixel_def nth_Cons' longitude_def np_pi_def)
  have l: "length [Fin 10, Fin 20, Fin 200] = length [Fin 0, Fin 0, Fin (0::real)]" by simp
  from count_map_sum [OF l g, of None None None False False]
  show ?thesis by fastforce
qed

section \<open>A masked pixel without objects\<close>

lemma bool_set_map2_nth:
  assumes "length a = length m" "length m = length b" "p < length a"
  shows "bool_set a m (map2 f (bool_get a m) (bool_get b m)) ! p
           = (if m ! p then f (a ! p) (b ! p) else a ! p)"
proof -
  have lz: "length m = length (zip a b)" using assms by simp
  have "map2 f (bool_get a m) (bool_get b m) = map (\<lambda>(u, v). f u v) (bool_get (zip a b) m)"
    using assms by (simp add: bool_get_zip)
  then show ?thesis
    using bool_set_map_get [OF assms(1) lz, of "\<lambda>(u, v). f u v"] assms by simp
qed

lemma np_add_at_length: "np_add_at a idx vals = Inr a' \<Longrightarrow> length a' = length a"
  by (auto simp: np_add_at_def split: sum.splits dest: add_at_length)

lemma np_add_at_untouched:
  assumes "np_add_at a idx vals = Inr a'" "p \<notin> set idx"
  shows "a' ! p = a ! p"
proof -
  from assms(1) obtain vs where "add_at a (zip idx vs) = Inr a'"
    by (auto simp: np_add_at_def split: sum.splits)
  moreover have "p \<notin> fst ` set (zip idx vs)"
    using assms(2) by (auto dest: set_zip_leftD)
  ultimately show ?thesis by (rule add_at_untouched)
qed

lemma quantity_map_empty_pixel:
  assumes q: "quantity_map npix ipix bm x qrow wrow = Inr om"
    and l: "length bm = npix" and p: "p < npix" "bm ! p" "p \<notin> set ipix"
  shows "om ! p = NaN"
proof -
  from q obtain sum_w outmap where
    sw: "np_add_at (np_zeros npix) ipix wrow = Inr sum_w"
    and ou: "np_add_at (np_zeros npix) ipix (map2 fmul qrow wrow) = Inr outmap"
    and om: "om = bool_fill (bool_set outmap bm
                 (map2 fdiv (bool_get outmap bm) (bool_get sum_w bm))) (logical_not bm) x"
    by (auto simp: quantity_map_def Let_def split: sum.splits)
  have lw: "length sum_w = npix" and lo: "length outmap = npix"
    using np_add_at_length [OF sw] np_add_at_length [OF ou] by (simp_all add: np_zeros_def)
  have w0: "sum_w ! p = Fin 0" and o0: "outmap ! p = Fin 0"
    using np_add_at_untouched [OF sw p(3)] np_add_at_untouched [OF ou p(3)] p(1)
    by (simp_all add: np_zeros_def)
  have "bool_set outmap bm (map2 fdiv (bool_get outmap bm) (bool_get sum_w bm)) ! p = NaN"
    using bool_set_map2_nth [of outmap bm sum_w p fdiv] lw lo l p w0 o0 by simp
  then show ?thesis
    unfolding om using p l lo by (simp add: bool_fill_def logical_not_def)
qed

lemma for_rows_Inr:
  "for_rows f is = Inr ms \<Longrightarrow> length ms = length is \<and> (\<forall>k<length is. f (is ! k) = Inr (ms ! k))"
proof (induction "is" arbitrary: ms)
  case Nil
  then show ?case by simp
next
  case (Cons i "is")
  from Cons.prems obtain m ms' where m: "f i = Inr m" "for_rows f is = Inr ms'" "ms = m # ms'"
    by (auto split: sum.splits)
  from Cons.IH [OF m(2)] m show ?case by (auto simp: nth_Cons')
qed

text \<open>
  Claim C10. When \<^verbatim>\<open>make_healpix_map\<close> is called with a mask and a quantity and returns,
  a pixel of the mask that holds no object has a weight sum of zero, and every quantity
  map has NaN there, the result of dividing zero by zero: the fill value is assigned
  outside the mask only and the division is not guarded.
\<close>

theorem empty_masked_pixel_nan:
  assumes r: "make_healpix_map hp ra dec (Some q) nside (Some m) weight fill_UNSEEN return_extra
                = Inr (outmaps, count, rm, ex)"
    and p: "p < nside2npix hp nside" "astype_bool m ! p"
    and e: "\<forall>k<length ra. object_pixel hp nside ra dec k \<noteq> p"
  shows "length outmaps = length (atleast_2d q)
     \<and> (\<forall>i<length outmaps. outmaps ! i ! p = NaN)
     \<and> (\<forall>wrow sum_w.
          np_add_at (np_zeros (nside2npix hp nside))
            (map (object_pixel hp nside ra dec) [0..<length ra]) wrow = Inr sum_w
          \<longrightarrow> sum_w ! p = Fin 0)"
proof -
  let ?npix = "nside2npix hp nside"
  let ?ipix = "map (object_pixel hp nside ra dec) [0..<length ra]"
  let ?x = "if fill_UNSEEN then UNSEEN else Fin 0"
  from r obtain qw ipix count0 where
    cq: "check_quantity ra dec (Some q) weight = Inr qw"
    and lm0: "case Some m of None \<Rightarrow> True | Some m \<Rightarrow> len_mask m = ?npix"
    and ip: "get_ipix hp nside ra dec = Inr ipix"
    and fr0: "(case qw of
        None \<Rightarrow> Inr []
      | Some (quantity2, weight2) \<Rightarrow>
          for_rows (\<lambda>i. quantity_map ?npix ipix
                          (case Some m of None \<Rightarrow> map (\<lambda>c. fgt c (Fin 0)) count0
                                        | Some m \<Rightarrow> astype_bool m)
                          ?x (quantity2 ! i) (weight2 ! i))
            [0 ..< length quantity2]) = Inr outmaps"
    by (rule make_healpix_map_InrD)
  from lm0 have lm: "len_mask m = ?npix" by simp
  from fr0 have fr: "(case qw of
        None \<Rightarrow> Inr []
      | Some (quantity2, weight2) \<Rightarrow>
          for_rows (\<lambda>i. quantity_map ?npix ipix (astype_bool m) ?x (quantity2 ! i) (weight2 ! i))
            [0 ..< length quantity2]) = Inr outmaps"
    by (simp only: option.case)
  from check_quantity_Some_rows [OF cq] obtain w2 where qw: "qw = Some (atleast_2d q, w2)"
    by blast
  from cq qw have "length ra = length dec" by (auto dest: check_quantity_Some_length)
  with ip have ipix: "ipix = ?ipix" by (simp add: get_ipix_same_length)
  have notin: "p \<notin> set ?ipix" using e by auto
  have lb: "length (astype_bool m) = ?npix" using lm by (cases m) simp_all
  from fr qw ipix have
    rows: "for_rows (\<lambda>i. quantity_map ?npix ?ipix (astype_bool m) ?x (atleast_2d q ! i) (w2 ! i))
             [0 ..< length (atleast_2d q)] = Inr outmaps"
    by simp
  from for_rows_Inr [OF rows] have
    n: "length outmaps = length (atleast_2d q)"
    and each: "\<forall>k<length (atleast_2d q).
        quantity_map ?npix ?ipix (astype_bool m) ?x (atleast_2d q ! k) (w2 ! k) = Inr (outmaps ! k)"
    by simp_all
  have "outmaps ! i ! p = NaN" if "i < length outmaps" for i
    using each that n quantity_map_empty_pixel [OF _ lb p notin] by auto
  moreover have "sum_w ! p = Fin 0"
    if "np_add_at (np_zeros ?npix) ?ipix wrow = Inr sum_w" for wrow sum_w
    using np_add_at_untouched [OF that notin] p(1) by (simp add: np_zeros_def)
  ultimately show ?thesis using n by blast
qed

theorem empty_masked_pixel_nan_witness:
  "make_healpix_map lon_healpy [Fin 10, Fin 20] [Fin 0, Fin 0] (Some (Arr1 [Fin 3, Fin 5])) 1
       (Some (BoolArr [True, True])) None False False
     = Inr ([[Fin 4, NaN]], [Fin 2, Fin 0], BoolArr [True, True], None)
   \<and> length [[Fin 4, NaN]] = length (atleast_2d (Arr1 [Fin 3, Fin 5]))
   \<and> [[Fin 4, NaN]] ! 0 ! 1 = NaN"
proof -
  have c: "make_healpix_map lon_healpy [Fin 10, Fin 20] [Fin 0, Fin 0]
       (Some (Arr1 [Fin 3, Fin 5])) 1 (Some (BoolArr [True, True])) None False False
     = Inr ([[Fin 4, NaN]], [Fin 2, Fin 0], BoolArr [True, True], None)"
    by (simp add: make_healpix_map_def check_quantity_def check_weight_def ncols_def ones_like_def
      lon_healpy_def get_ipix_def quantity_map_def
      Let_def numeral_2_eq_2 broadcast2_def longitude_def colatitude_def np_pi_def
      np_add_at_def broadcast_to_def np_zeros_def fgt_def bool_fill_def logical_not_def
      float_of_bool_def fsub_def)
  have "length [[Fin 4, NaN]] = length (atleast_2d (Arr1 [Fin 3, Fin 5]))
      \<and> [[Fin 4, NaN]] ! 0 ! 1 = NaN"
    using empty_masked_pixel_nan [OF c, of 1]
    by (simp add: lon_healpy_def object_pixel_def nth_Cons' longitude_def np_pi_def)
  with c show ?thesis by simp
qed

section \<open>The Poisson rates\<close>









end
